theory Spec2Isabelle
  imports Complex_Main
begin

section \<open>Score decoder (generate-full-review.js, parseScoresFromRawText)\<close>

text \<open>
  The decoder works on two runs of decimal digits, one per side, cut out of the raw text
  of a score card by the patterns modelled in the section on raw text below.
  \<open>userScoreStr.split("").map(Number)\<close> turns each run into a list of the numbers 0 to 9;
  \<open>Number\<close> is only applied to the characters 0 to 9, which is all that \<open>\d+\<close> matches. Set
  outcomes are pushed as strings and two counters record the sets taken by each side.

  Numbers read with \<open>parseInt\<close> from a run of digits are modelled as natural numbers;
  the source computes them as IEEE doubles, which agree with the natural number for runs
  of up to fifteen digits.
\<close>

definition digit_char :: "nat \<Rightarrow> char" where
  "digit_char d = ''0123456789'' ! d"

function show_nat :: "nat \<Rightarrow> string" where
  "show_nat n = (if n < 10 then [digit_char n] else show_nat (n div 10) @ [digit_char (n mod 10)])"
  by pat_completeness auto
termination
  by (relation "measure id") auto

declare show_nat.simps [simp del]

definition Number :: "char \<Rightarrow> nat" where
  "Number c = of_char c - 48"

definition split_digits :: "string \<Rightarrow> nat list" where
  "split_digits s = map Number s"

text \<open>\<open>parseInt(ds.join(""))\<close> for a non-empty list of digits.\<close>

definition parseInt_digits :: "nat list \<Rightarrow> nat" where
  "parseInt_digits ds = foldl (\<lambda>a d. 10 * a + d) 0 ds"

record parse_state =
  sets :: "string list"
  userSetsWon :: nat
  oppSetsWon :: nat

definition push_user :: "string \<Rightarrow> parse_state \<Rightarrow> parse_state" where
  "push_user s st = st\<lparr>sets := sets st @ [s], userSetsWon := userSetsWon st + 1\<rparr>"

definition push_opp :: "string \<Rightarrow> parse_state \<Rightarrow> parse_state" where
  "push_opp s st = st\<lparr>sets := sets st @ [s], oppSetsWon := oppSetsWon st + 1\<rparr>"

definition push_none :: "string \<Rightarrow> parse_state \<Rightarrow> parse_state" where
  "push_none s st = st\<lparr>sets := sets st @ [s]\<rparr>"

definition score_str :: "nat \<Rightarrow> nat \<Rightarrow> string" where
  "score_str a b = show_nat a @ ''-'' @ show_nat b"

definition paren_str :: "nat \<Rightarrow> nat \<Rightarrow> string" where
  "paren_str a b = ''('' @ score_str a b @ '')''"

subsection \<open>Tiebreak set (7-6 or 6-7), lines 100-152\<close>

datatype step_result = Advance1 parse_state | Advance2 parse_state | Break parse_state

definition tiebreak_step :: "nat list \<Rightarrow> nat list \<Rightarrow> nat \<Rightarrow> parse_state \<Rightarrow> step_result" where
  "tiebreak_step userDigits oppDigits i st =
    (let my = userDigits ! i; opp = oppDigits ! i;
         count = (\<lambda>s. if my > opp then push_user s st else push_opp s st)
     in
     if i + 1 < length userDigits \<and> i + 1 < length oppDigits then
       (let nextMy = userDigits ! (i + 1); nextOpp = oppDigits ! (i + 1) in
        if nextMy \<le> 7 \<and> nextOpp \<le> 7 then
          (if i + 2 < length userDigits \<and> i + 2 < length oppDigits
              \<and> userDigits ! (i + 2) \<le> 7 \<and> oppDigits ! (i + 2) \<le> 7
           then Advance2 (count (score_str my opp @ paren_str nextMy nextOpp))
           else Advance2 (count (score_str my opp @ paren_str nextMy nextOpp)))
        else Advance1 (count (score_str my opp)))
     else Advance1 (count (score_str my opp)))"

subsection \<open>Super tiebreak after a 0-1 or 1-0 indicator, lines 162-328\<close>

text \<open>
  \<open>stb_special\<close> is the "0-11" case of lines 193-218, \<open>stb_strategy1\<close> the chain of
  lines 226-280 and \<open>stb_scores\<close> the whole computation of \<open>stbUser\<close> and \<open>stbOpp\<close>
  (lines 185-287). \<open>nextUser\<close> and \<open>nextOpp\<close> (\<open>next_digit\<close>, lines 165-166) are \<open>None\<close>
  for the source's \<open>null\<close>.
  All three are only called with both remaining lists non-empty.
\<close>

definition stb_special :: "nat option \<Rightarrow> nat option \<Rightarrow> nat list \<Rightarrow> nat list \<Rightarrow> nat \<times> nat" where
  "stb_special nextUser nextOpp remainingUser remainingOpp =
    (if nextUser = Some 1 \<and> nextOpp = Some 1 then
       (if length remainingUser \<ge> 1 \<and> length remainingOpp \<ge> 1 then
          (if nextOpp = Some 1 then
             (if length remainingOpp \<ge> 1 \<and> hd remainingOpp = 0
              then (10, hd remainingUser) else (0, 0))
           else (0, 0))
        else (0, 0))
     else (0, 0))"

definition stb_strategy1 :: "nat option \<Rightarrow> nat option \<Rightarrow> nat list \<Rightarrow> nat list \<Rightarrow> nat \<times> nat" where
  "stb_strategy1 nextUser nextOpp remainingUser remainingOpp =
    (if length remainingOpp \<ge> 2 then
       (let oppFirstTwo = parseInt_digits (take 2 remainingOpp);
            userSingle = (if length remainingUser > 0 then last remainingUser else 0)
        in
        if oppFirstTwo \<ge> 10 then (userSingle, oppFirstTwo)
        else if length remainingUser \<ge> 2 then
          (let userFirstTwo = parseInt_digits (take 2 remainingUser);
               oppSingle = (if length remainingOpp > 0 then last remainingOpp else 0)
           in if userFirstTwo \<ge> 10 then (userFirstTwo, oppSingle) else (0, 0))
        else (0, 0))
     else if length remainingOpp \<ge> 3 then
       (let oppLastTwo = parseInt_digits (drop (length remainingOpp - 2) remainingOpp);
            userSingle = (if length remainingUser > 0 then last remainingUser else 0)
        in if oppLastTwo \<ge> 10 then (userSingle, oppLastTwo) else (0, 0))
     else if length remainingOpp = 1 \<and> length remainingUser = 1 then
       (if nextUser = Some 1 \<and> nextOpp = Some 1 then
          (if hd remainingOpp = 0 \<and> hd remainingUser > 0 then (hd remainingUser, 10) else (0, 0))
        else (0, 0))
     else (0, 0))"

definition stb_scores :: "nat option \<Rightarrow> nat option \<Rightarrow> nat list \<Rightarrow> nat list \<Rightarrow> nat \<times> nat" where
  "stb_scores nextUser nextOpp remainingUser remainingOpp =
    (let (stbUser, stbOpp) = stb_special nextUser nextOpp remainingUser remainingOpp in
     if stbUser < 10 \<and> stbOpp < 10 then
       (let (stbUser, stbOpp) = stb_strategy1 nextUser nextOpp remainingUser remainingOpp in
        if stbUser < 10 \<and> stbOpp < 10
        then (parseInt_digits remainingUser, parseInt_digits remainingOpp)
        else (stbUser, stbOpp))
     else (stbUser, stbOpp))"

definition next_digit :: "nat list \<Rightarrow> nat \<Rightarrow> nat option" where
  "next_digit ds i = (if i + 1 < length ds then Some (ds ! (i + 1)) else None)"

definition stb_remaining :: "nat list \<Rightarrow> nat list \<Rightarrow> nat \<Rightarrow> nat list \<times> nat list" where
  "stb_remaining userDigits oppDigits i =
    (let nextUser = next_digit userDigits i;
         nextOpp = next_digit oppDigits i
     in
     if nextUser = Some 1 \<and> nextOpp = Some 1
        \<and> i + 2 < length userDigits \<and> i + 2 < length oppDigits
     then (drop (i + 2) userDigits, drop (i + 2) oppDigits)
     else (drop (i + 1) userDigits, drop (i + 1) oppDigits))"

text \<open>
  \<open>stb_accepted\<close> is the test of line 290 on the scores found: \<open>Some\<close> of the pair when the
  branch that pushes a scored super tiebreak is taken.
\<close>

definition stb_accepted :: "nat list \<Rightarrow> nat list \<Rightarrow> nat \<Rightarrow> (nat \<times> nat) option" where
  "stb_accepted userDigits oppDigits i =
    (let nextUser = next_digit userDigits i;
         nextOpp = next_digit oppDigits i;
         (remainingUser, remainingOpp) = stb_remaining userDigits oppDigits i
     in
     if length remainingUser > 0 \<and> length remainingOpp > 0 then
       (let (stbUser, stbOpp) = stb_scores nextUser nextOpp remainingUser remainingOpp in
        if stbUser \<ge> 10 \<or> stbOpp \<ge> 10 then Some (stbUser, stbOpp) else None)
     else None)"

definition super_tiebreak_step :: "nat list \<Rightarrow> nat list \<Rightarrow> nat \<Rightarrow> parse_state \<Rightarrow> step_result" where
  "super_tiebreak_step userDigits oppDigits i st =
    (let my = userDigits ! i in
     case stb_accepted userDigits oppDigits i of
       Some (stbUser, stbOpp) \<Rightarrow>
         (if stbUser > stbOpp
          then Break (push_user (''1-0'' @ paren_str stbUser stbOpp) st)
          else Break (push_opp (''0-1'' @ paren_str stbUser stbOpp) st))
     | None \<Rightarrow>
         (if my = 1 then Break (push_user ''1-0'' st) else Break (push_opp ''0-1'' st)))"

subsection \<open>Regular set and the fallback, lines 330-367\<close>

definition isValidSet :: "nat \<Rightarrow> nat \<Rightarrow> bool" where
  "isValidSet my opp \<longleftrightarrow>
     (my = 6 \<and> opp \<le> 4) \<or> (opp = 6 \<and> my \<le> 4) \<or>
     (my = 7 \<and> opp = 5) \<or> (opp = 7 \<and> my = 5) \<or>
     (my = 7 \<and> opp = 6) \<or> (opp = 7 \<and> my = 6) \<or>
     (my \<le> 6 \<and> opp \<le> 6 \<and> (my \<noteq> 0 \<or> opp \<noteq> 0))"

definition regular_step :: "nat \<Rightarrow> nat \<Rightarrow> parse_state \<Rightarrow> parse_state" where
  "regular_step my opp st =
    (if my > opp then push_user (score_str my opp) st
     else if opp > my then push_opp (score_str my opp) st
     else push_none (score_str my opp) st)"

definition fallback_step :: "nat list \<Rightarrow> nat list \<Rightarrow> nat \<Rightarrow> parse_state \<Rightarrow> parse_state" where
  "fallback_step userDigits oppDigits i st =
    (let remainingUser = drop i userDigits; remainingOpp = drop i oppDigits in
     if length remainingUser > 0 \<and> length remainingOpp > 0 then
       (let stbUser = parseInt_digits remainingUser; stbOpp = parseInt_digits remainingOpp in
        if (stbUser \<ge> 10 \<or> stbOpp \<ge> 10) \<and> stbUser \<noteq> stbOpp then
          (if stbUser > stbOpp then push_user (score_str stbUser stbOpp) st
           else push_opp (score_str stbUser stbOpp) st)
        else st)
     else st)"

subsection \<open>The scan, lines 95-368\<close>

definition parse_step :: "nat list \<Rightarrow> nat list \<Rightarrow> nat \<Rightarrow> parse_state \<Rightarrow> step_result" where
  "parse_step userDigits oppDigits i st =
    (let my = userDigits ! i; opp = oppDigits ! i in
     if (my = 7 \<and> opp = 6) \<or> (my = 6 \<and> opp = 7) then tiebreak_step userDigits oppDigits i st
     else if (my = 0 \<and> opp = 1) \<or> (my = 1 \<and> opp = 0) then super_tiebreak_step userDigits oppDigits i st
     else if my \<le> 7 \<and> opp \<le> 7 \<and> isValidSet my opp then Advance1 (regular_step my opp st)
     else Break (fallback_step userDigits oppDigits i st))"

function parse_loop :: "nat list \<Rightarrow> nat list \<Rightarrow> nat \<Rightarrow> parse_state \<Rightarrow> parse_state" where
  "parse_loop userDigits oppDigits i st =
    (if i < length userDigits \<and> i < length oppDigits then
       (case parse_step userDigits oppDigits i st of
          Advance1 st' \<Rightarrow> parse_loop userDigits oppDigits (i + 1) st'
        | Advance2 st' \<Rightarrow> parse_loop userDigits oppDigits (i + 2) st'
        | Break st' \<Rightarrow> st')
     else st)"
  by pat_completeness auto
termination
  by (relation "measure (\<lambda>(userDigits, oppDigits, i, st). length userDigits - i)") auto

declare parse_loop.simps [simp del]

definition initial_state :: parse_state where
  "initial_state = \<lparr>sets = [], userSetsWon = 0, oppSetsWon = 0\<rparr>"

text \<open>
  \<open>decode_state\<close> is the state at the \<open>return\<close> of line 370 for two non-empty digit runs;
  \<open>parseScores\<close> is the body of the function from line 82 on, with the empty string for a
  run that was not found (\<open>undefined\<close> and the empty string are both falsy). \<open>None\<close> is the
  source's \<open>won: null\<close>.
\<close>

definition decode_state :: "string \<Rightarrow> string \<Rightarrow> parse_state" where
  "decode_state userScoreStr oppScoreStr =
     parse_loop (split_digits userScoreStr) (split_digits oppScoreStr) 0 initial_state"

record decoded =
  dsets :: "string list"
  dwon :: "bool option"

definition parseScores :: "string \<Rightarrow> string \<Rightarrow> decoded" where
  "parseScores userScoreStr oppScoreStr =
    (if userScoreStr \<noteq> [] \<and> oppScoreStr \<noteq> [] then
       (let st = decode_state userScoreStr oppScoreStr in
        \<lparr>dsets = sets st, dwon = Some (userSetsWon st > oppSetsWon st)\<rparr>)
     else \<lparr>dsets = [], dwon = None\<rparr>)"

subsection \<open>Notions used to state the decoder's properties\<close>

text \<open>
  A regular set with the same number of games on both sides is pushed by the branch of
  lines 343-348 without touching either counter. Such a pair passes \<open>isValidSet\<close> only
  through its last disjunct, so it is one of 1-1 to 6-6.
\<close>

definition tied_set :: "string \<Rightarrow> bool" where
  "tied_set s \<longleftrightarrow> s \<in> set (map (\<lambda>d. score_str d d) [1, 2, 3, 4, 5, 6])"

definition counted :: "parse_state \<Rightarrow> bool" where
  "counted st \<longleftrightarrow>
     userSetsWon st + oppSetsWon st + length (filter tied_set (sets st)) = length (sets st)"

definition step_counted :: "step_result \<Rightarrow> bool" where
  "step_counted r =
     (case r of Advance1 st' \<Rightarrow> counted st' | Advance2 st' \<Rightarrow> counted st' | Break st' \<Rightarrow> counted st')"

text \<open>
  The specification's test for a super tiebreak score: one side has at least 10 points and
  the margin is at least 2. It is written here after the specification, to be compared
  with the test of line 290.
\<close>

definition spec_valid_super_tiebreak :: "nat \<Rightarrow> nat \<Rightarrow> bool" where
  "spec_valid_super_tiebreak a b \<longleftrightarrow> (a \<ge> 10 \<or> b \<ge> 10) \<and> (a \<ge> b + 2 \<or> b \<ge> a + 2)"

text \<open>
  The interpretations of the remaining digits after an indicator pair, in the order in
  which lines 193-286 try them: the "0-11" form, the opponent's first two digits against
  my last digit, my first two digits against the opponent's last digit (both only when the
  opponent has two digits left), and all remaining digits of each side as one number.
\<close>

definition cand_indicator_11 :: "nat option \<Rightarrow> nat option \<Rightarrow> nat list \<Rightarrow> nat list \<Rightarrow> (nat \<times> nat) option" where
  "cand_indicator_11 nextUser nextOpp remainingUser remainingOpp =
    (if nextUser = Some 1 \<and> nextOpp = Some 1 \<and> hd remainingOpp = 0
     then Some (10, hd remainingUser) else None)"

definition cand_opp_first_two :: "nat list \<Rightarrow> nat list \<Rightarrow> (nat \<times> nat) option" where
  "cand_opp_first_two remainingUser remainingOpp =
    (if length remainingOpp \<ge> 2 \<and> parseInt_digits (take 2 remainingOpp) \<ge> 10
     then Some (last remainingUser, parseInt_digits (take 2 remainingOpp)) else None)"

definition cand_user_first_two :: "nat list \<Rightarrow> nat list \<Rightarrow> (nat \<times> nat) option" where
  "cand_user_first_two remainingUser remainingOpp =
    (if length remainingOpp \<ge> 2 \<and> length remainingUser \<ge> 2
        \<and> parseInt_digits (take 2 remainingUser) \<ge> 10
     then Some (parseInt_digits (take 2 remainingUser), last remainingOpp) else None)"

fun first_candidate :: "'a option list \<Rightarrow> 'a \<Rightarrow> 'a" where
  "first_candidate [] d = d"
| "first_candidate (Some c # cs) d = c"
| "first_candidate (None # cs) d = first_candidate cs d"

definition stb_candidate :: "nat option \<Rightarrow> nat option \<Rightarrow> nat list \<Rightarrow> nat list \<Rightarrow> nat \<times> nat" where
  "stb_candidate nextUser nextOpp remainingUser remainingOpp =
     first_candidate
       [cand_indicator_11 nextUser nextOpp remainingUser remainingOpp,
        cand_opp_first_two remainingUser remainingOpp,
        cand_user_first_two remainingUser remainingOpp]
       (parseInt_digits remainingUser, parseInt_digits remainingOpp)"

section \<open>String primitives of the aggregator\<close>

text \<open>
  Set outcomes reach the aggregator as strings, and \<open>generateStats\<close> reads them back with
  regular expressions, \<open>split\<close> and \<open>parseInt\<close>. The functions below are those primitives
  on ASCII strings. A number is an integer; \<open>None\<close> stands for \<open>NaN\<close>.
\<close>

definition is_digit :: "char \<Rightarrow> bool" where
  "is_digit c \<longleftrightarrow> c \<in> set ''0123456789''"

definition is_hex_digit :: "char \<Rightarrow> bool" where
  "is_hex_digit c \<longleftrightarrow> c \<in> set ''0123456789abcdefABCDEF''"

definition is_space :: "char \<Rightarrow> bool" where
  "is_space c \<longleftrightarrow> c \<in> set [CHR 0x09, CHR 0x0A, CHR 0x0B, CHR 0x0C, CHR 0x0D, CHR '' '']"

definition hex_value :: "char \<Rightarrow> nat" where
  "hex_value c =
    (if is_digit c then of_char c - 48
     else if c \<in> set ''abcdef'' then of_char c - 87
     else of_char c - 55)"

text \<open>
  \<open>parseInt(s)\<close> with no radix: leading white space and one sign are skipped, a prefix
  \<open>0x\<close> or \<open>0X\<close> selects base 16, and the longest run of digits is read; no digit gives
  \<open>NaN\<close>.
\<close>

definition parseInt :: "string \<Rightarrow> int option" where
  "parseInt s =
    (let t = dropWhile is_space s;
         negative = (t \<noteq> [] \<and> hd t = CHR ''-'');
         u = (if t \<noteq> [] \<and> (hd t = CHR ''-'' \<or> hd t = CHR ''+'') then tl t else t);
         hex = (length u \<ge> 2 \<and> hd u = CHR ''0'' \<and> (u ! 1 = CHR ''x'' \<or> u ! 1 = CHR ''X''));
         ds = (if hex then takeWhile is_hex_digit (drop 2 u) else takeWhile is_digit u);
         n = foldl (\<lambda>a c. (if hex then 16 else 10) * a + hex_value c) 0 ds
     in if ds = [] then None else Some (if negative then - int n else int n))"

text \<open>\<open>s.split(sep)\<close> for a separator of one character.\<close>

fun split_on :: "char \<Rightarrow> string \<Rightarrow> string list" where
  "split_on sep [] = [[]]"
| "split_on sep (c # cs) =
    (if c = sep then [] # split_on sep cs
     else (case split_on sep cs of p # ps \<Rightarrow> (c # p) # ps | [] \<Rightarrow> [[c]]))"

text \<open>
  \<open>s.replace(/\([^)]+\)/, "")\<close>: the leftmost opening parenthesis that is followed by at
  least one character other than a closing parenthesis and then by a closing parenthesis
  is removed together with everything up to that closing parenthesis.
\<close>

fun strip_parenthetical :: "string \<Rightarrow> string" where
  "strip_parenthetical [] = []"
| "strip_parenthetical (c # cs) =
    (if c = CHR ''('' \<and> takeWhile (\<lambda>x. x \<noteq> CHR '')'') cs \<noteq> []
        \<and> dropWhile (\<lambda>x. x \<noteq> CHR '')'') cs \<noteq> []
     then tl (dropWhile (\<lambda>x. x \<noteq> CHR '')'') cs)
     else c # strip_parenthetical cs)"

text \<open>
  \<open>paren_score rest\<close> matches \<open>\((\d+)-(\d+)\)$\<close> against the whole of \<open>rest\<close> and
  returns the two runs of digits.
\<close>

definition paren_score :: "string \<Rightarrow> (string \<times> string) option" where
  "paren_score rest =
    (case rest of
       [] \<Rightarrow> None
     | c # r \<Rightarrow>
        (let d1 = takeWhile is_digit r; r1 = dropWhile is_digit r in
         if c = CHR ''('' \<and> d1 \<noteq> [] \<and> r1 \<noteq> [] \<and> hd r1 = CHR ''-'' then
           (let d2 = takeWhile is_digit (tl r1); r2 = dropWhile is_digit (tl r1) in
            if d2 \<noteq> [] \<and> r2 = '')'' then Some (d1, d2) else None)
         else None))"

text \<open>
  The three patterns of the per-set analysis (lines 707, 727 and 742). Each returns the
  captured games of the two sides as characters.
\<close>

definition superTiebreakMatch :: "string \<Rightarrow> (char \<times> char \<times> string \<times> string) option" where
  "superTiebreakMatch s =
    (case s of
       a # m # b # rest \<Rightarrow>
         (if a \<in> set ''01'' \<and> m = CHR ''-'' \<and> b \<in> set ''01'' then
            (case paren_score rest of Some (d1, d2) \<Rightarrow> Some (a, b, d1, d2) | None \<Rightarrow> None)
          else None)
     | _ \<Rightarrow> None)"

definition superTiebreakNoScore :: "string \<Rightarrow> bool" where
  "superTiebreakNoScore s \<longleftrightarrow>
    (case s of [a, m, b] \<Rightarrow> a \<in> set ''01'' \<and> m = CHR ''-'' \<and> b \<in> set ''01'' | _ \<Rightarrow> False)"

definition tiebreakMatch :: "string \<Rightarrow> (char \<times> char) option" where
  "tiebreakMatch s =
    (case s of
       a # m # b # rest \<Rightarrow>
         (if a \<in> set ''67'' \<and> m = CHR ''-'' \<and> b \<in> set ''67''
             \<and> (rest = [] \<or> paren_score rest \<noteq> None)
          then Some (a, b) else None)
     | _ \<Rightarrow> None)"

section \<open>Statistics aggregator (generate-full-review.js, generateStats)\<close>

text \<open>
  A match as \<open>generateStats\<close> reads it. \<open>won\<close> is \<open>Some True\<close>, \<open>Some False\<close> or \<open>None\<close> for any
  other value; a rating is \<open>None\<close> when the field is missing, \<open>null\<close> or \<open>NaN\<close>; \<open>msets\<close> is
  the array \<open>m.sets\<close> (the empty list when it is missing). For doubles,
  \<open>doublesPartner\<close> and \<open>doublesTeam\<close> are the values of the locals \<open>partner\<close> and \<open>team\<close> that
  lines 607-640 read off \<open>m.rawText\<close> and the player's name (\<open>None\<close> for \<open>null\<close>); both are
  non-empty strings when present. Names of opponents, partners and teams are taken to
  differ from the property names every JavaScript object inherits.
\<close>

datatype match_type = Singles | Doubles

record match =
  date :: "string option"
  opponent :: "string option"
  opponentId :: "string option"
  myUtr :: "rat option"
  myUtrBefore :: "rat option"
  opponentUtr :: "rat option"
  opponentUtrBefore :: "rat option"
  msets :: "string list"
  isWalkover :: bool
  won :: "bool option"
  doublesPartner :: "string option"
  doublesTeam :: "string option"

record aggregate =
  played :: nat
  agg_wins :: nat
  agg_losses :: nat
  gamesWon :: int
  gamesLost :: int
  agg_setsWon :: nat
  agg_setsLost :: nat

record opponent_aggregate = aggregate +
  utr :: rat
  opp_id :: "string option"

text \<open>The entry pushed on \<open>stats.matches\<close> (lines 850-867), with the fields read later.\<close>

record played_match =
  pm_date :: "string option"
  pm_won :: "bool option"
  pm_sets :: "string list"

record stats =
  wins :: nat
  losses :: nat
  walkovers :: nat
  vsHigherWins :: nat
  vsHigherLosses :: nat
  vsLowerWins :: nat
  vsLowerLosses :: nat
  bagelsGiven :: nat
  bagelsReceived :: nat
  breadsticksGiven :: nat
  breadsticksReceived :: nat
  tiebreaksWon :: nat
  tiebreaksLost :: nat
  superTiebreaksWon :: nat
  superTiebreaksLost :: nat
  setsRecordWon :: nat
  setsRecordLost :: nat
  gamesRecordWon :: int
  gamesRecordLost :: int
  decidingSetsWon :: nat
  decidingSetsLost :: nat
  wonWithFewer :: nat
  lostWithMore :: nat
  opponents :: "string \<rightharpoonup> opponent_aggregate"
  partners :: "string \<rightharpoonup> aggregate"
  teams :: "string \<rightharpoonup> aggregate"
  longestWinStreak :: nat
  longestLossStreak :: nat
  currentWinStreak :: nat
  currentLossStreak :: nat
  matches :: "played_match list"

definition initial_stats :: stats where
  "initial_stats =
    \<lparr>wins = 0, losses = 0, walkovers = 0,
     vsHigherWins = 0, vsHigherLosses = 0, vsLowerWins = 0, vsLowerLosses = 0,
     bagelsGiven = 0, bagelsReceived = 0, breadsticksGiven = 0, breadsticksReceived = 0,
     tiebreaksWon = 0, tiebreaksLost = 0, superTiebreaksWon = 0, superTiebreaksLost = 0,
     setsRecordWon = 0, setsRecordLost = 0, gamesRecordWon = 0, gamesRecordLost = 0,
     decidingSetsWon = 0, decidingSetsLost = 0, wonWithFewer = 0, lostWithMore = 0,
     opponents = Map.empty, partners = Map.empty, teams = Map.empty,
     longestWinStreak = 0, longestLossStreak = 0, currentWinStreak = 0, currentLossStreak = 0,
     matches = []\<rparr>"

subsection \<open>Per-set analysis, lines 705-797\<close>

record set_acc =
  setsWon :: nat
  setsLost :: nat
  matchGamesWon :: int
  matchGamesLost :: int
  hasSuperTiebreak :: bool

definition initial_acc :: set_acc where
  "initial_acc = \<lparr>setsWon = 0, setsLost = 0, matchGamesWon = 0, matchGamesLost = 0,
                   hasSuperTiebreak = False\<rparr>"

definition super_won :: "set_acc \<times> stats \<Rightarrow> set_acc \<times> stats" where
  "super_won p = (case p of (acc, st) \<Rightarrow>
     (acc\<lparr>hasSuperTiebreak := True, setsWon := setsWon acc + 1\<rparr>,
      st\<lparr>superTiebreaksWon := superTiebreaksWon st + 1\<rparr>))"

definition super_lost :: "set_acc \<times> stats \<Rightarrow> set_acc \<times> stats" where
  "super_lost p = (case p of (acc, st) \<Rightarrow>
     (acc\<lparr>hasSuperTiebreak := True, setsLost := setsLost acc + 1\<rparr>,
      st\<lparr>superTiebreaksLost := superTiebreaksLost st + 1\<rparr>))"

definition tiebreak_set :: "int \<Rightarrow> int \<Rightarrow> set_acc \<times> stats \<Rightarrow> set_acc \<times> stats" where
  "tiebreak_set myGames oppGames p = (case p of (acc, st) \<Rightarrow>
     (let st1 = (if myGames = 7 \<and> oppGames = 6 then st\<lparr>tiebreaksWon := tiebreaksWon st + 1\<rparr>
                 else if myGames = 6 \<and> oppGames = 7 then st\<lparr>tiebreaksLost := tiebreaksLost st + 1\<rparr>
                 else st);
          acc1 = acc\<lparr>matchGamesWon := matchGamesWon acc + myGames,
                     matchGamesLost := matchGamesLost acc + oppGames\<rparr>;
          acc2 = (if myGames > oppGames then acc1\<lparr>setsWon := setsWon acc1 + 1\<rparr>
                  else acc1\<lparr>setsLost := setsLost acc1 + 1\<rparr>)
      in (acc2, st1)))"

definition regular_set :: "int \<Rightarrow> int \<Rightarrow> set_acc \<times> stats \<Rightarrow> set_acc \<times> stats" where
  "regular_set myGames oppGames p = (case p of (acc, st) \<Rightarrow>
     (let acc1 = acc\<lparr>matchGamesWon := matchGamesWon acc + myGames,
                     matchGamesLost := matchGamesLost acc + oppGames\<rparr>;
          acc2 = (if myGames > oppGames then acc1\<lparr>setsWon := setsWon acc1 + 1\<rparr>
                  else if oppGames > myGames then acc1\<lparr>setsLost := setsLost acc1 + 1\<rparr>
                  else acc1);
          st1 = (if myGames = 6 \<and> oppGames = 0 then st\<lparr>bagelsGiven := bagelsGiven st + 1\<rparr>
                 else if myGames = 0 \<and> oppGames = 6 then st\<lparr>bagelsReceived := bagelsReceived st + 1\<rparr>
                 else if myGames = 6 \<and> oppGames = 1 then st\<lparr>breadsticksGiven := breadsticksGiven st + 1\<rparr>
                 else if myGames = 1 \<and> oppGames = 6 then st\<lparr>breadsticksReceived := breadsticksReceived st + 1\<rparr>
                 else st)
      in (acc2, st1)))"

definition analyze_set :: "string \<Rightarrow> set_acc \<times> stats \<Rightarrow> set_acc \<times> stats" where
  "analyze_set s p =
    (case superTiebreakMatch s of
       Some (a, b, d1, d2) \<Rightarrow> (if parseInt [a] = Some 1 then super_won p else super_lost p)
     | None \<Rightarrow>
        if superTiebreakNoScore s then
          (if parseInt (hd (split_on CHR ''-'' s)) = Some 1 then super_won p else super_lost p)
        else
          (case tiebreakMatch s of
             Some (a, b) \<Rightarrow>
               (case (parseInt [a], parseInt [b]) of
                  (Some myGames, Some oppGames) \<Rightarrow> tiebreak_set myGames oppGames p
                | _ \<Rightarrow> p)
           | None \<Rightarrow>
              (let parts = split_on CHR ''-'' (strip_parenthetical s) in
               if length parts \<noteq> 2 then p
               else
                 (case (parseInt (parts ! 0), parseInt (parts ! 1)) of
                    (Some myGames, Some oppGames) \<Rightarrow>
                      if myGames \<ge> 10 \<or> oppGames \<ge> 10 then
                        (if myGames > oppGames then super_won p else super_lost p)
                      else regular_set myGames oppGames p
                  | _ \<Rightarrow> p))))"

definition analyze_sets :: "string list \<Rightarrow> stats \<Rightarrow> set_acc \<times> stats" where
  "analyze_sets ss st = foldl (\<lambda>p s. analyze_set s p) (initial_acc, st) ss"


subsection \<open>One match, lines 567-868\<close>

text \<open>\<open>a || b || 0\<close> on ratings: the first operand that is a number other than 0.\<close>

definition rating_or :: "rat option \<Rightarrow> rat option \<Rightarrow> rat" where
  "rating_or a b =
    (case a of
       Some x \<Rightarrow> (if x \<noteq> 0 then x else (case b of Some y \<Rightarrow> y | None \<Rightarrow> 0))
     | None \<Rightarrow> (case b of Some y \<Rightarrow> y | None \<Rightarrow> 0))"

definition truthy :: "string option \<Rightarrow> bool" where
  "truthy v = (case v of Some s \<Rightarrow> s \<noteq> [] | None \<Rightarrow> False)"

definition key_of :: "string option \<Rightarrow> string" where
  "key_of v = (case v of Some s \<Rightarrow> s | None \<Rightarrow> [])"

definition update_record :: "match \<Rightarrow> stats \<Rightarrow> stats" where
  "update_record m st =
    (if won m = Some True then
       (let st1 = st\<lparr>wins := wins st + 1, currentWinStreak := currentWinStreak st + 1,
                     currentLossStreak := 0\<rparr>
        in if currentWinStreak st1 > longestWinStreak st1
           then st1\<lparr>longestWinStreak := currentWinStreak st1\<rparr> else st1)
     else if won m = Some False then
       (let st1 = st\<lparr>losses := losses st + 1, currentLossStreak := currentLossStreak st + 1,
                     currentWinStreak := 0\<rparr>
        in if currentLossStreak st1 > longestLossStreak st1
           then st1\<lparr>longestLossStreak := currentLossStreak st1\<rparr> else st1)
     else st)"

definition update_rated :: "match \<Rightarrow> stats \<Rightarrow> stats" where
  "update_rated m st =
    (let myUtr = rating_or (myUtr m) (myUtrBefore m);
         oppUtr = rating_or (opponentUtr m) (opponentUtrBefore m)
     in
     if won m = Some True then
       (if oppUtr > myUtr then st\<lparr>vsHigherWins := vsHigherWins st + 1\<rparr>
        else st\<lparr>vsLowerWins := vsLowerWins st + 1\<rparr>)
     else if won m = Some False then
       (if oppUtr > myUtr then st\<lparr>vsHigherLosses := vsHigherLosses st + 1\<rparr>
        else st\<lparr>vsLowerLosses := vsLowerLosses st + 1\<rparr>)
     else st)"

definition new_aggregate :: aggregate where
  "new_aggregate = \<lparr>played = 0, agg_wins = 0, agg_losses = 0, gamesWon = 0, gamesLost = 0,
                      agg_setsWon = 0, agg_setsLost = 0\<rparr>"

definition new_opponent :: "rat \<Rightarrow> string option \<Rightarrow> opponent_aggregate" where
  "new_opponent oppUtr oid = \<lparr>played = 0, agg_wins = 0, agg_losses = 0, gamesWon = 0, gamesLost = 0,
                      agg_setsWon = 0, agg_setsLost = 0, utr = oppUtr, opp_id = oid\<rparr>"

text \<open>\<open>played++\<close> and the win or loss of the match, on an entry of any of the three tables.\<close>

definition count_match :: "bool option \<Rightarrow> ('a aggregate_scheme) \<Rightarrow> ('a aggregate_scheme)" where
  "count_match w e =
    (let e1 = e\<lparr>played := played e + 1\<rparr> in
     if w = Some True then e1\<lparr>agg_wins := agg_wins e1 + 1\<rparr>
     else if w = Some False then e1\<lparr>agg_losses := agg_losses e1 + 1\<rparr>
     else e1)"

definition add_games :: "set_acc \<Rightarrow> ('a aggregate_scheme) \<Rightarrow> ('a aggregate_scheme)" where
  "add_games acc e =
     e\<lparr>gamesWon := gamesWon e + matchGamesWon acc, gamesLost := gamesLost e + matchGamesLost acc,
       agg_setsWon := agg_setsWon e + setsWon acc, agg_setsLost := agg_setsLost e + setsLost acc\<rparr>"

text \<open>
  The locals \<open>partner\<close> and \<open>team\<close> (lines 604-640) are \<open>null\<close> unless the type is doubles.
\<close>

definition partner_of :: "match_type \<Rightarrow> match \<Rightarrow> string option" where
  "partner_of type m = (if type = Doubles then doublesPartner m else None)"

definition team_of :: "match_type \<Rightarrow> match \<Rightarrow> string option" where
  "team_of type m = (if type = Doubles then doublesTeam m else None)"

definition track_opponents :: "match_type \<Rightarrow> match \<Rightarrow> stats \<Rightarrow> stats" where
  "track_opponents type m st =
    (let partner = partner_of type m; team = team_of type m;
         oppUtr = rating_or (opponentUtr m) (opponentUtrBefore m)
     in
     if type = Doubles \<and> truthy team then
       (let t = key_of team;
            e = (case teams st t of Some e \<Rightarrow> e | None \<Rightarrow> new_aggregate);
            st1 = st\<lparr>teams := (teams st)(t \<mapsto> count_match (won m) e)\<rparr>
        in
        if truthy partner then
          (let p = key_of partner;
               e' = (case partners st1 p of Some e' \<Rightarrow> e' | None \<Rightarrow> new_aggregate)
           in st1\<lparr>partners := (partners st1)(p \<mapsto> count_match (won m) e')\<rparr>)
        else st1)
     else if truthy (opponent m) then
       (let k = key_of (opponent m);
            e = (case opponents st k of Some e \<Rightarrow> e | None \<Rightarrow> new_opponent oppUtr (opponentId m))
        in st\<lparr>opponents := (opponents st)(k \<mapsto> count_match (won m) e)\<rparr>)
     else st)"

definition track_games :: "match_type \<Rightarrow> match \<Rightarrow> set_acc \<Rightarrow> stats \<Rightarrow> stats" where
  "track_games type m acc st =
    (let partner = partner_of type m; team = team_of type m in
     if type = Doubles then
       (let st1 = (if truthy team then
                     (case teams st (key_of team) of
                        Some e \<Rightarrow> st\<lparr>teams := (teams st)(key_of team \<mapsto> add_games acc e)\<rparr>
                      | None \<Rightarrow> st)
                   else st)
        in
        if truthy partner then
          (case partners st1 (key_of partner) of
             Some e \<Rightarrow> st1\<lparr>partners := (partners st1)(key_of partner \<mapsto> add_games acc e)\<rparr>
           | None \<Rightarrow> st1)
        else st1)
     else if truthy (opponent m) then
       (case opponents st (key_of (opponent m)) of
          Some e \<Rightarrow> st\<lparr>opponents := (opponents st)(key_of (opponent m) \<mapsto> add_games acc e)\<rparr>
        | None \<Rightarrow> st)
     else st)"

definition games_differential :: "match \<Rightarrow> set_acc \<Rightarrow> stats \<Rightarrow> stats" where
  "games_differential m acc st =
    (if won m = Some True \<and> matchGamesWon acc < matchGamesLost acc
     then st\<lparr>wonWithFewer := wonWithFewer st + 1\<rparr>
     else if won m = Some False \<and> matchGamesWon acc > matchGamesLost acc
     then st\<lparr>lostWithMore := lostWithMore st + 1\<rparr>
     else st)"

definition wentToDecider :: "set_acc \<Rightarrow> bool" where
  "wentToDecider acc \<longleftrightarrow> (setsWon acc \<ge> 1 \<and> setsLost acc \<ge> 1) \<or> hasSuperTiebreak acc"

definition deciding_sets :: "match \<Rightarrow> set_acc \<Rightarrow> stats \<Rightarrow> stats" where
  "deciding_sets m acc st =
    (if wentToDecider acc then
       (if won m = Some True then st\<lparr>decidingSetsWon := decidingSetsWon st + 1\<rparr>
        else if won m = Some False then st\<lparr>decidingSetsLost := decidingSetsLost st + 1\<rparr>
        else st)
     else st)"

definition set_analysis :: "match_type \<Rightarrow> match \<Rightarrow> stats \<Rightarrow> stats" where
  "set_analysis type m st =
    (if length (msets m) > 0 then
       (case analyze_sets (msets m) st of (acc, st1) \<Rightarrow>
          (let st2 = st1\<lparr>setsRecordWon := setsRecordWon st1 + setsWon acc,
                         setsRecordLost := setsRecordLost st1 + setsLost acc,
                         gamesRecordWon := gamesRecordWon st1 + matchGamesWon acc,
                         gamesRecordLost := gamesRecordLost st1 + matchGamesLost acc\<rparr>;
               st3 = games_differential m acc st2;
               st4 = track_games type m acc st3
           in deciding_sets m acc st4))
     else st)"

definition push_match :: "match \<Rightarrow> stats \<Rightarrow> stats" where
  "push_match m st =
     st\<lparr>matches := matches st @ [\<lparr>pm_date = date m, pm_won = won m, pm_sets = msets m\<rparr>]\<rparr>"

definition process_match :: "match_type \<Rightarrow> stats \<Rightarrow> match \<Rightarrow> stats" where
  "process_match type st m =
    (if isWalkover m then st\<lparr>walkovers := walkovers st + 1\<rparr>
     else push_match m (set_analysis type m (track_opponents type m (update_rated m (update_record m st)))))"

definition fold_matches :: "match_type \<Rightarrow> stats \<Rightarrow> match list \<Rightarrow> stats" where
  "fold_matches type st ms = foldl (process_match type) st ms"

subsection \<open>Monthly breakdown, lines 1185-1235\<close>

text \<open>
  \<open>monthlyStats\<close> is an object used as a dictionary from month keys to win and loss counts.
  It is modelled as the list of its entries in the order in which the keys were first
  written. \<open>Object.values\<close> lists the entries whose key is the decimal form of an array
  index first, in increasing order of the index, and the others after them in the order
  of their creation.
\<close>

record month_entry =
  month :: string
  m_wins :: nat
  m_losses :: nat

record month_row = month_entry +
  total :: nat
  winPct :: int

definition monthNames :: "string list" where
  "monthNames = [''Jan'', ''Feb'', ''Mar'', ''Apr'', ''May'', ''Jun'',
                 ''Jul'', ''Aug'', ''Sep'', ''Oct'', ''Nov'', ''Dec'']"

definition is_iso_date :: "string \<Rightarrow> bool" where
  "is_iso_date d \<longleftrightarrow> length d = 10 \<and> d ! 4 = CHR ''-'' \<and> d ! 7 = CHR ''-'' \<and>
     list_all (\<lambda>i. is_digit (d ! i)) [0, 1, 2, 3, 5, 6, 8, 9]"

definition monthKey :: "string \<Rightarrow> string" where
  "monthKey d =
    (if is_iso_date d then
       (case parseInt (take 2 (drop 5 d)) of
          Some n \<Rightarrow> (if 1 \<le> n \<and> n \<le> 12 then monthNames ! nat (n - 1) else ''undefined'')
        | None \<Rightarrow> ''undefined'')
     else take 3 d)"

fun bump_month :: "string \<Rightarrow> bool option \<Rightarrow> month_entry list \<Rightarrow> month_entry list" where
  "bump_month k w [] =
     [\<lparr>month = k, m_wins = (if w = Some True then 1 else 0),
       m_losses = (if w = Some False then 1 else 0)\<rparr>]"
| "bump_month k w (e # es) =
    (if month e = k then
       (if w = Some True then e\<lparr>m_wins := m_wins e + 1\<rparr>
        else if w = Some False then e\<lparr>m_losses := m_losses e + 1\<rparr>
        else e) # es
     else e # bump_month k w es)"

definition monthly_step :: "month_entry list \<Rightarrow> played_match \<Rightarrow> month_entry list" where
  "monthly_step es m =
    (if truthy (pm_date m) then bump_month (monthKey (key_of (pm_date m))) (pm_won m) es else es)"

definition monthlyStats :: "played_match list \<Rightarrow> month_entry list" where
  "monthlyStats ms = foldl monthly_step [] ms"

definition is_array_index :: "string \<Rightarrow> bool" where
  "is_array_index k \<longleftrightarrow> k \<noteq> [] \<and> list_all is_digit k \<and> (k = ''0'' \<or> hd k \<noteq> CHR ''0'')
     \<and> parseInt_digits (map Number k) < 4294967295"

definition object_values :: "month_entry list \<Rightarrow> month_entry list" where
  "object_values es =
     sort_key (\<lambda>e. parseInt_digits (map Number (month e))) (filter (\<lambda>e. is_array_index (month e)) es)
     @ filter (\<lambda>e. \<not> is_array_index (month e)) es"

text \<open>
  \<open>Math.round((wins / (wins + losses)) * 100)\<close> is computed in IEEE double arithmetic, which
  is not modelled: the function \<open>pct\<close> that gives this value from the wins and the losses
  of a month is a parameter of the model. \<open>exact_pct\<close> is the value in exact arithmetic,
  rounded half up; it is the value the source computes whenever the quotient is exact in
  binary, as for a month without a loss or without a win.
\<close>

definition exact_pct :: "nat \<Rightarrow> nat \<Rightarrow> int" where
  "exact_pct w l = int ((200 * w + (w + l)) div (2 * (w + l)))"

definition month_row_of :: "(nat \<Rightarrow> nat \<Rightarrow> int) \<Rightarrow> month_entry \<Rightarrow> month_row" where
  "month_row_of pct e =
     \<lparr>month = month e, m_wins = m_wins e, m_losses = m_losses e,
      total = m_wins e + m_losses e,
      winPct = (if m_wins e + m_losses e > 0 then pct (m_wins e) (m_losses e) else 0)\<rparr>"

definition monthlyData :: "(nat \<Rightarrow> nat \<Rightarrow> int) \<Rightarrow> played_match list \<Rightarrow> month_row list" where
  "monthlyData pct ms =
     filter (\<lambda>r. total r > 0) (map (month_row_of pct) (object_values (monthlyStats ms)))"

text \<open>
  \<open>monthlyData.sort((a, b) => b.winPct - a.winPct)\<close>: the sort of an array is stable, so
  rows with the same percentage keep their order.
\<close>

definition monthlyBreakdown :: "(nat \<Rightarrow> nat \<Rightarrow> int) \<Rightarrow> played_match list \<Rightarrow> month_row list" where
  "monthlyBreakdown pct ms = sort_key (\<lambda>r. - winPct r) (monthlyData pct ms)"

definition bestMonth :: "(nat \<Rightarrow> nat \<Rightarrow> int) \<Rightarrow> played_match list \<Rightarrow> month_row option" where
  "bestMonth pct ms =
    (case monthlyBreakdown pct ms of [] \<Rightarrow> None | r # rs \<Rightarrow> Some r)"

definition worstMonth :: "(nat \<Rightarrow> nat \<Rightarrow> int) \<Rightarrow> played_match list \<Rightarrow> month_row option" where
  "worstMonth pct ms =
    (case monthlyBreakdown pct ms of [] \<Rightarrow> None | r # rs \<Rightarrow> Some (last (r # rs)))"

subsection \<open>Comebacks, lines 1237-1261\<close>

definition digits_only :: "string \<Rightarrow> string" where
  "digits_only s = filter is_digit s"

definition comeback_step :: "nat \<times> nat \<Rightarrow> played_match \<Rightarrow> nat \<times> nat" where
  "comeback_step c m = (case c of (comebacks, chokes) \<Rightarrow>
    (if length (pm_sets m) < 2 then c
     else
       (let firstSet = map (\<lambda>s. parseInt (digits_only s)) (split_on CHR ''-'' (hd (pm_sets m))) in
        if length firstSet \<noteq> 2 then c
        else
          (case (firstSet ! 0, firstSet ! 1) of
             (Some a, Some b) \<Rightarrow>
               (let wonFirstSet = (a > b);
                    comebacks1 = (if pm_won m = Some True \<and> \<not> wonFirstSet then comebacks + 1 else comebacks);
                    chokes1 = (if pm_won m = Some False \<and> wonFirstSet then chokes + 1 else chokes)
                in (comebacks1, chokes1))
           | _ \<Rightarrow> c))))"

definition comebacks :: "played_match list \<Rightarrow> nat \<times> nat" where
  "comebacks ms = foldl comeback_step (0, 0) ms"

subsection \<open>The result\<close>

text \<open>
  The season statistics: the counters and tables after the fold over the matches, the
  monthly breakdown with the best and the worst month, and the comebacks (won after losing
  the first set) and chokes. The percentages, the call-outs and the head-to-head network of
  the source are not part of the model.
\<close>

record season_stats =
  folded :: stats
  ss_monthlyBreakdown :: "month_row list"
  ss_bestMonth :: "month_row option"
  ss_worstMonth :: "month_row option"
  ss_comebacks :: "nat \<times> nat"

definition generateStats :: "(nat \<Rightarrow> nat \<Rightarrow> int) \<Rightarrow> match_type \<Rightarrow> match list \<Rightarrow> season_stats" where
  "generateStats pct type ms =
    (let st = fold_matches type initial_stats ms in
     \<lparr>folded = st,
      ss_monthlyBreakdown = monthlyBreakdown pct (matches st),
      ss_bestMonth = bestMonth pct (matches st),
      ss_worstMonth = worstMonth pct (matches st),
      ss_comebacks = comebacks (matches st)\<rparr>)"

section \<open>Raw text: extraction of the digit runs, walkovers and the winner\<close>

subsection \<open>String primitives\<close>






definition trim_start :: "string \<Rightarrow> string" where
  "trim_start s = dropWhile is_space s"

subsection \<open>The digit runs of a score card, lines 44-80\<close>

text \<open>
  \<open>match_utr s\<close> matches \<open>\d+\.\d{2}\<close> at the start of \<open>s\<close> and returns the length of the
  match; \<open>match_utr_score s\<close> matches \<open>(\d+\.\d{2})\s+(\d+)\<close> there and returns the second
  group with the length of the match. Every repetition is followed by a character outside
  its class, so the longest run is the only one that can match.
\<close>

definition match_utr :: "string \<Rightarrow> nat option" where
  "match_utr s =
    (let d1 = takeWhile is_digit s; r1 = dropWhile is_digit s in
     if d1 \<noteq> [] \<and> length r1 \<ge> 3 \<and> r1 ! 0 = CHR ''.'' \<and> is_digit (r1 ! 1) \<and> is_digit (r1 ! 2)
     then Some (length d1 + 3) else None)"

definition match_utr_score :: "string \<Rightarrow> (string \<times> nat) option" where
  "match_utr_score s =
    (case match_utr s of
       None \<Rightarrow> None
     | Some n \<Rightarrow>
        (let r = drop n s; ws = takeWhile is_space r; d2 = takeWhile is_digit (dropWhile is_space r) in
         if ws \<noteq> [] \<and> d2 \<noteq> [] then Some (d2, n + length ws + length d2) else None))"

text \<open>
  \<open>matchAll\<close> with a global pattern: the matches from left to right, each search starting
  where the previous match ended. \<open>skip\<close> counts the characters of the current match that
  are still to be passed over. \<open>all_utr_scores\<close> lists the second group of each match of
  the singles pattern, \<open>all_utr_ends\<close> the text after each match of the rating pattern.
\<close>

fun all_utr_scores :: "nat \<Rightarrow> string \<Rightarrow> string list" where
  "all_utr_scores skip [] = []"
| "all_utr_scores skip (c # cs) =
    (if skip > 0 then all_utr_scores (skip - 1) cs
     else (case match_utr_score (c # cs) of
             Some (g, n) \<Rightarrow> g # all_utr_scores (n - 1) cs
           | None \<Rightarrow> all_utr_scores 0 cs))"

fun all_utr_ends :: "nat \<Rightarrow> string \<Rightarrow> string list" where
  "all_utr_ends skip [] = []"
| "all_utr_ends skip (c # cs) =
    (if skip > 0 then all_utr_ends (skip - 1) cs
     else (case match_utr (c # cs) of
             Some n \<Rightarrow> drop n (c # cs) # all_utr_ends (n - 1) cs
           | None \<Rightarrow> all_utr_ends 0 cs))"

text \<open>
  The two runs \<open>userScoreStr\<close> and \<open>oppScoreStr\<close>; the empty string stands for a run that
  stays \<open>undefined\<close>.
\<close>

definition score_strings :: "match_type \<Rightarrow> string \<Rightarrow> string \<times> string" where
  "score_strings type rawText =
    (case type of
       Doubles \<Rightarrow>
         (let ends = all_utr_ends 0 rawText in
          if length ends \<ge> 4 then
            (let userScoreMatch = takeWhile is_digit (trim_start (ends ! 1));
                 oppScoreMatch = takeWhile is_digit (trim_start (ends ! 3))
             in if userScoreMatch \<noteq> [] \<and> oppScoreMatch \<noteq> []
                then (userScoreMatch, oppScoreMatch) else ([], []))
          else ([], []))
     | Singles \<Rightarrow>
         (let ms = all_utr_scores 0 rawText in
          if length ms \<ge> 2 then (ms ! 0, ms ! 1) else ([], [])))"

text \<open>\<open>rawText\<close> is \<open>None\<close> when the field is missing.\<close>

definition parseScoresFromRawText :: "string option \<Rightarrow> match_type \<Rightarrow> decoded" where
  "parseScoresFromRawText rawText type =
    (case rawText of
       None \<Rightarrow> \<lparr>dsets = [], dwon = None\<rparr>
     | Some t \<Rightarrow>
        (if t = [] then \<lparr>dsets = [], dwon = None\<rparr>
         else (case score_strings type t of (userScoreStr, oppScoreStr) \<Rightarrow>
                 parseScores userScoreStr oppScoreStr)))"

subsection \<open>Walkover and winner in the scraper (scraper-full.js, lines 1889-2071)\<close>





subsection \<open>fixMatchData (generate-full-review.js, lines 415-520)\<close>













subsection \<open>Notions used to state the aggregator's properties\<close>

text \<open>
  \<open>played_step\<close> is the body of the loop for a match that is not a walkover;
  \<open>with_walkovers\<close> sets the walkover counter and leaves the rest of the statistics.
\<close>

definition with_walkovers :: "nat \<Rightarrow> stats \<Rightarrow> stats" where
  "with_walkovers x st = st\<lparr>walkovers := x\<rparr>"

definition lift_walkovers :: "nat \<Rightarrow> set_acc \<times> stats \<Rightarrow> set_acc \<times> stats" where
  "lift_walkovers x p = (fst p, with_walkovers x (snd p))"

definition played_step :: "match_type \<Rightarrow> match \<Rightarrow> stats \<Rightarrow> stats" where
  "played_step type m st =
     push_match m (set_analysis type m (track_opponents type m (update_rated m (update_record m st))))"


text \<open>
  The four counters of the games differential and of the deciding sets, and what one match
  with the accumulators \<open>acc\<close> of its sets adds to each pair.
\<close>

definition counters :: "stats \<Rightarrow> nat \<times> nat \<times> nat \<times> nat" where
  "counters st = (wonWithFewer st, lostWithMore st, decidingSetsWon st, decidingSetsLost st)"

definition differential_of :: "match \<Rightarrow> set_acc \<Rightarrow> nat \<times> nat" where
  "differential_of m acc =
     (if won m = Some True \<and> matchGamesWon acc < matchGamesLost acc then (1, 0)
      else if won m = Some False \<and> matchGamesWon acc > matchGamesLost acc then (0, 1)
      else (0, 0))"

definition decider_of :: "match \<Rightarrow> set_acc \<Rightarrow> nat \<times> nat" where
  "decider_of m acc =
     (if wentToDecider acc \<and> won m = Some True then (1, 0)
      else if wentToDecider acc \<and> won m = Some False then (0, 1)
      else (0, 0))"


text \<open>
  \<open>set_effect s\<close> is what the analysis of the set \<open>s\<close> alone leaves in the accumulators,
  and \<open>add_effect\<close> adds such a contribution to the accumulators of a match.
\<close>

definition set_effect :: "string \<Rightarrow> set_acc" where
  "set_effect s = fst (analyze_set s (initial_acc, initial_stats))"

definition add_effect :: "set_acc \<Rightarrow> set_acc \<Rightarrow> set_acc" where
  "add_effect acc e =
    \<lparr>setsWon = setsWon acc + setsWon e, setsLost = setsLost acc + setsLost e,
     matchGamesWon = matchGamesWon acc + matchGamesWon e,
     matchGamesLost = matchGamesLost acc + matchGamesLost e,
     hasSuperTiebreak = (hasSuperTiebreak acc \<or> hasSuperTiebreak e)\<rparr>"

text \<open>
  Set outcomes as the specification has them, independent of the way the aggregator reads
  set strings: a regular set with the games of both sides, a tiebreak set (7-6 for me or
  6-7) with or without the points of the tiebreak, and a super tiebreak, given by its
  winner with or without its score, or by its score alone. \<open>render\<close> is the string the
  decoder writes for an outcome. An outcome is \<open>valid_outcome\<close> when it has a winner: a
  regular set has at most 7 games a side, different on both sides, and is not the
  indicator pair 1-0 or 0-1; a super tiebreak given by its score alone has one side at 10
  or more and different points on both sides.
\<close>

datatype set_outcome =
    Regular nat nat
  | Tiebreak bool "(nat \<times> nat) option"
  | SuperTiebreak bool "(nat \<times> nat) option"
  | SuperTiebreakScore nat nat

fun render :: "set_outcome \<Rightarrow> string" where
  "render (Regular a b) = score_str a b"
| "render (Tiebreak mine None) = (if mine then ''7-6'' else ''6-7'')"
| "render (Tiebreak mine (Some (x, y))) = (if mine then ''7-6'' else ''6-7'') @ paren_str x y"
| "render (SuperTiebreak mine None) = (if mine then ''1-0'' else ''0-1'')"
| "render (SuperTiebreak mine (Some (x, y))) = (if mine then ''1-0'' else ''0-1'') @ paren_str x y"
| "render (SuperTiebreakScore x y) = score_str x y"

fun valid_outcome :: "set_outcome \<Rightarrow> bool" where
  "valid_outcome (Regular a b) \<longleftrightarrow> a \<le> 7 \<and> b \<le> 7 \<and> a \<noteq> b \<and> \<not> (a \<le> 1 \<and> b \<le> 1)"
| "valid_outcome (Tiebreak mine sc) \<longleftrightarrow> True"
| "valid_outcome (SuperTiebreak mine sc) \<longleftrightarrow> True"
| "valid_outcome (SuperTiebreakScore x y) \<longleftrightarrow> (x \<ge> 10 \<or> y \<ge> 10) \<and> x \<noteq> y"

fun won_by_me :: "set_outcome \<Rightarrow> bool" where
  "won_by_me (Regular a b) \<longleftrightarrow> a > b"
| "won_by_me (Tiebreak mine sc) \<longleftrightarrow> mine"
| "won_by_me (SuperTiebreak mine sc) \<longleftrightarrow> mine"
| "won_by_me (SuperTiebreakScore x y) \<longleftrightarrow> x > y"

fun won_by_opponent :: "set_outcome \<Rightarrow> bool" where
  "won_by_opponent (Regular a b) \<longleftrightarrow> b > a"
| "won_by_opponent (Tiebreak mine sc) \<longleftrightarrow> \<not> mine"
| "won_by_opponent (SuperTiebreak mine sc) \<longleftrightarrow> \<not> mine"
| "won_by_opponent (SuperTiebreakScore x y) \<longleftrightarrow> y > x"

fun is_super_tiebreak :: "set_outcome \<Rightarrow> bool" where
  "is_super_tiebreak (Regular a b) \<longleftrightarrow> False"
| "is_super_tiebreak (Tiebreak mine sc) \<longleftrightarrow> False"
| "is_super_tiebreak (SuperTiebreak mine sc) \<longleftrightarrow> True"
| "is_super_tiebreak (SuperTiebreakScore x y) \<longleftrightarrow> True"

text \<open>
  Both sides won at least one set among all the sets of the match, or some set of the
  match is a super tiebreak.
\<close>

definition decider_by_all_sets :: "set_outcome list \<Rightarrow> bool" where
  "decider_by_all_sets os \<longleftrightarrow>
     (list_ex won_by_me os \<and> list_ex won_by_opponent os) \<or> list_ex is_super_tiebreak os"

text \<open>
  The condition as the specification words it: both sides won a set before the final set,
  or the final set is a super tiebreak.
\<close>

definition decider_before_final_set :: "set_outcome list \<Rightarrow> bool" where
  "decider_before_final_set os \<longleftrightarrow>
     (list_ex won_by_me (butlast os) \<and> list_ex won_by_opponent (butlast os))
     \<or> (os \<noteq> [] \<and> is_super_tiebreak (last os))"

text \<open>
  The order of months the specification asks for: a higher win percentage first and, for
  equal percentages, more matches played first.
\<close>

definition spec_better_month :: "month_row \<Rightarrow> month_row \<Rightarrow> bool" where
  "spec_better_month a b \<longleftrightarrow> winPct a > winPct b \<or> (winPct a = winPct b \<and> total a > total b)"

text \<open>
  The table of months in terms of the match list. The matches that count are those that
  are not walkovers and have a date; \<open>month_of\<close> is the month label of a match. The months
  are listed in the order in which they first occur in the match list, each with the number
  of its matches won and lost; a month without a decided match has no row.
\<close>

definition played :: "match list \<Rightarrow> match list" where
  "played ms = filter (\<lambda>m. \<not> isWalkover m) ms"

definition played_entry :: "match \<Rightarrow> played_match" where
  "played_entry m = \<lparr>pm_date = date m, pm_won = won m, pm_sets = msets m\<rparr>"

definition dated :: "match \<Rightarrow> bool" where
  "dated m \<longleftrightarrow> truthy (date m)"

definition month_of :: "match \<Rightarrow> string" where
  "month_of m = monthKey (key_of (date m))"

definition first_occurrences :: "string list \<Rightarrow> string list" where
  "first_occurrences xs = rev (remdups (rev xs))"

definition months_in_order :: "match list \<Rightarrow> string list" where
  "months_in_order ds = first_occurrences (map month_of ds)"

definition month_wins :: "match list \<Rightarrow> string \<Rightarrow> nat" where
  "month_wins ds k = length (filter (\<lambda>m. month_of m = k \<and> won m = Some True) ds)"

definition month_losses :: "match list \<Rightarrow> string \<Rightarrow> nat" where
  "month_losses ds k = length (filter (\<lambda>m. month_of m = k \<and> won m = Some False) ds)"

definition month_entry_of :: "match list \<Rightarrow> string \<Rightarrow> month_entry" where
  "month_entry_of ds k = \<lparr>month = k, m_wins = month_wins ds k, m_losses = month_losses ds k\<rparr>"

definition month_summary :: "(nat \<Rightarrow> nat \<Rightarrow> int) \<Rightarrow> match list \<Rightarrow> string \<Rightarrow> month_row" where
  "month_summary pct ds k =
     \<lparr>month = k, m_wins = month_wins ds k, m_losses = month_losses ds k,
      total = month_wins ds k + month_losses ds k,
      winPct = pct (month_wins ds k) (month_losses ds k)\<rparr>"

definition month_table :: "(nat \<Rightarrow> nat \<Rightarrow> int) \<Rightarrow> match list \<Rightarrow> month_row list" where
  "month_table pct ms =
     (let ds = filter dated (played ms) in
      filter (\<lambda>r. total r > 0) (map (month_summary pct ds) (months_in_order ds)))"

text \<open>
  \<open>effect w l gw gl s\<close> is the contribution of one set to the accumulators of a match: sets
  won and lost, games won and lost, and whether it is a super tiebreak.
\<close>

definition effect :: "nat \<Rightarrow> nat \<Rightarrow> int \<Rightarrow> int \<Rightarrow> bool \<Rightarrow> set_acc" where
  "effect w l gw gl s =
    \<lparr>setsWon = w, setsLost = l, matchGamesWon = gw, matchGamesLost = gl, hasSuperTiebreak = s\<rparr>"

definition game_counts :: "nat list" where
  "game_counts = [0, 1, 2, 3, 4, 5, 6, 7]"

text \<open>
  The set and game totals of the season, and the accumulators of a whole set list as the
  sum of the contributions of its sets.
\<close>

definition totals :: "stats \<Rightarrow> nat \<times> nat \<times> int \<times> int" where
  "totals st = (setsRecordWon st, setsRecordLost st, gamesRecordWon st, gamesRecordLost st)"

definition sets_effect :: "string list \<Rightarrow> set_acc" where
  "sets_effect ss = foldl add_effect initial_acc (map set_effect ss)"


subsection \<open>Example matches\<close>

definition example_match :: "string \<Rightarrow> string \<Rightarrow> bool option \<Rightarrow> string list \<Rightarrow> match" where
  "example_match d opp w ss =
    \<lparr>date = Some d, opponent = Some opp, opponentId = None,
     myUtr = Some 5, myUtrBefore = None, opponentUtr = Some 6, opponentUtrBefore = None,
     msets = ss, isWalkover = False, won = w, doublesPartner = None, doublesTeam = None\<rparr>"

definition walkover_example :: match where
  "walkover_example = (example_match ''2025-03-01'' ''Bob Ray'' (Some True) [])\<lparr>isWalkover := True\<rparr>"

definition split_sets_example :: match where
  "split_sets_example = example_match ''2025-01-03'' ''Bob Ray'' (Some False) [''6-4'', ''4-6'']"

definition tied_months_example :: "match list" where
  "tied_months_example =
    [example_match ''2025-01-10'' ''Bob Ray'' (Some True) [''6-4'', ''6-4''],
     example_match ''2025-02-03'' ''Cal Doe'' (Some True) [''6-3'', ''6-3''],
     example_match ''2025-02-17'' ''Dan Poe'' (Some True) [''6-2'', ''6-2'']]"

definition jan_row :: month_row where
  "jan_row = \<lparr>month = ''Jan'', m_wins = 1, m_losses = 0, total = 1, winPct = 100\<rparr>"

definition feb_row :: month_row where
  "feb_row = \<lparr>month = ''Feb'', m_wins = 2, m_losses = 0, total = 2, winPct = 100\<rparr>"

section \<open>Properties\<close>

subsection \<open>Facts about the decoder\<close>



lemma show_nat_digit [simp]: "n < 10 \<Longrightarrow> show_nat n = [digit_char n]"
  by (subst show_nat.simps) simp

lemma show_nat_length: "length (show_nat n) \<ge> 1"
  by (induction n rule: show_nat.induct) (subst show_nat.simps, simp)

lemma show_nat_length2: "n \<ge> 10 \<Longrightarrow> length (show_nat n) \<ge> 2"
  using show_nat_length [of "n div 10"] by (subst show_nat.simps) simp

lemma below_ten: "(n::nat) < 10 \<Longrightarrow> n \<in> {0, 1, 2, 3, 4, 5, 6, 7, 8, 9}"
  by auto

lemma of_char_digit_char: "a < 10 \<Longrightarrow> of_char (digit_char a) = 48 + a"
  using below_ten [of a] by (auto simp: digit_char_def)

lemma digit_char_inj: "a < 10 \<Longrightarrow> b < 10 \<Longrightarrow> digit_char a = digit_char b \<Longrightarrow> a = b"
proof -
  assume a: "a < 10" and b: "b < 10" and e: "digit_char a = digit_char b"
  from e have "of_char (digit_char a) = (of_char (digit_char b) :: nat)" by simp
  with a b show "a = b" by (simp add: of_char_digit_char)
qed

lemma tied_set_length: "tied_set s \<Longrightarrow> length s = 3"
  by (auto simp: tied_set_def score_str_def)

lemma not_tied_long: "length s > 3 \<Longrightarrow> \<not> tied_set s"
  using tied_set_length by fastforce

lemma paren_str_length: "length (paren_str a b) \<ge> 5"
  using show_nat_length [of a] show_nat_length [of b]
  by (simp add: paren_str_def score_str_def)

lemma tied_set_iff_digits:
  "a < 10 \<Longrightarrow> b < 10 \<Longrightarrow> tied_set (score_str a b) \<longleftrightarrow> a = b \<and> 1 \<le> a \<and> a \<le> 6"
proof -
  assume a: "a < 10" and b: "b < 10"
  have d: "\<And>k. k < 10 \<Longrightarrow> digit_char a = digit_char k \<longleftrightarrow> a = k"
    "\<And>k. k < 10 \<Longrightarrow> digit_char b = digit_char k \<longleftrightarrow> b = k"
    using a b digit_char_inj by blast+
  show ?thesis using a b
    by (auto simp: tied_set_def score_str_def d)
qed

lemma not_tied_paren: "\<not> tied_set (s @ paren_str a b)"
  using paren_str_length [of a b] by (intro not_tied_long) simp

lemma not_tied_big: "a \<ge> 10 \<or> b \<ge> 10 \<Longrightarrow> \<not> tied_set (score_str a b)"
proof
  assume big: "a \<ge> 10 \<or> b \<ge> 10" and "tied_set (score_str a b)"
  then have "length (score_str a b) = 3" using tied_set_length by blast
  moreover have "length (score_str a b) \<ge> 4"
    using big show_nat_length [of a] show_nat_length [of b]
      show_nat_length2 [of a] show_nat_length2 [of b]
    by (auto simp: score_str_def)
  ultimately show False by simp
qed

lemma not_tied_indicator: "\<not> tied_set ''1-0''" "\<not> tied_set ''0-1''"
  using tied_set_iff_digits [of 1 0] tied_set_iff_digits [of 0 1]
  by (simp_all add: score_str_def digit_char_def)

lemma not_tied_indicator_paren:
  "\<not> tied_set (''1-0'' @ paren_str a b)" "\<not> tied_set (''0-1'' @ paren_str a b)"
  by (rule not_tied_paren)+

lemma counted_push_user: "counted st \<Longrightarrow> \<not> tied_set s \<Longrightarrow> counted (push_user s st)"
  by (simp add: counted_def push_user_def)

lemma counted_push_opp: "counted st \<Longrightarrow> \<not> tied_set s \<Longrightarrow> counted (push_opp s st)"
  by (simp add: counted_def push_opp_def)

lemma counted_push_none: "counted st \<Longrightarrow> tied_set s \<Longrightarrow> counted (push_none s st)"
  by (simp add: counted_def push_none_def)

lemma counted_tiebreak:
  assumes "counted st"
    and "(userDigits ! i = 7 \<and> oppDigits ! i = 6) \<or> (userDigits ! i = 6 \<and> oppDigits ! i = 7)"
  shows "step_counted (tiebreak_step userDigits oppDigits i st)"
proof -
  have nt: "\<not> tied_set (score_str (userDigits ! i) (oppDigits ! i))"
    using assms(2) by (auto simp: tied_set_iff_digits)
  show ?thesis
    using assms(1) nt
    by (auto simp: step_counted_def tiebreak_step_def Let_def counted_push_user counted_push_opp
        not_tied_paren)
qed

lemma counted_super:
  assumes "counted st"
  shows "step_counted (super_tiebreak_step userDigits oppDigits i st)"
  using assms
  by (auto simp: step_counted_def super_tiebreak_step_def Let_def split: option.splits
      intro!: counted_push_user counted_push_opp not_tied_indicator_paren [simplified]
        not_tied_indicator)

lemma counted_regular:
  assumes "counted st" "my \<le> 7" "opp \<le> 7" "isValidSet my opp"
  shows "counted (regular_step my opp st)"
proof -
  have "my = opp \<Longrightarrow> tied_set (score_str my opp)"
    using assms(2-4) by (auto simp: tied_set_iff_digits isValidSet_def)
  moreover have "my \<noteq> opp \<Longrightarrow> \<not> tied_set (score_str my opp)"
    using assms(2,3) by (simp add: tied_set_iff_digits)
  ultimately show ?thesis
    using assms(1) by (auto simp: regular_step_def counted_push_user counted_push_opp counted_push_none)
qed

lemma counted_fallback: "counted st \<Longrightarrow> counted (fallback_step userDigits oppDigits i st)"
  by (auto simp: fallback_step_def Let_def counted_push_user counted_push_opp not_tied_big)

lemma counted_step:
  assumes "counted st"
  shows "step_counted (parse_step userDigits oppDigits i st)"
proof -
  let ?my = "userDigits ! i" and ?opp = "oppDigits ! i"
  let ?tb = "(?my = 7 \<and> ?opp = 6) \<or> (?my = 6 \<and> ?opp = 7)"
  let ?stb = "(?my = 0 \<and> ?opp = 1) \<or> (?my = 1 \<and> ?opp = 0)"
  let ?reg = "?my \<le> 7 \<and> ?opp \<le> 7 \<and> isValidSet ?my ?opp"
  have unfold: "parse_step userDigits oppDigits i st =
      (if ?tb then tiebreak_step userDigits oppDigits i st
       else if ?stb then super_tiebreak_step userDigits oppDigits i st
       else if ?reg then Advance1 (regular_step ?my ?opp st)
       else Break (fallback_step userDigits oppDigits i st))"
    by (simp only: parse_step_def Let_def)
  show ?thesis
  proof (cases ?tb)
    case True
    have "parse_step userDigits oppDigits i st = tiebreak_step userDigits oppDigits i st"
      by (simp only: unfold True if_True)
    then show ?thesis using counted_tiebreak [OF assms True] by simp
  next
    case ntb: False
    show ?thesis
    proof (cases ?stb)
      case True
      have "parse_step userDigits oppDigits i st = super_tiebreak_step userDigits oppDigits i st"
        by (simp only: unfold ntb True if_True if_False simp_thms)
      then show ?thesis using counted_super [OF assms] by simp
    next
      case nstb: False
      show ?thesis
      proof (cases ?reg)
        case True
        then have "counted (regular_step ?my ?opp st)"
          using counted_regular [OF assms] by blast
        moreover have "parse_step userDigits oppDigits i st = Advance1 (regular_step ?my ?opp st)"
          by (simp only: unfold ntb nstb True if_True if_False simp_thms)
        ultimately show ?thesis by (simp add: step_counted_def)
      next
        case False
        have "parse_step userDigits oppDigits i st = Break (fallback_step userDigits oppDigits i st)"
          by (simp only: unfold ntb nstb False if_True if_False simp_thms)
        then show ?thesis
          using counted_fallback [OF assms] by (simp add: step_counted_def)
      qed
    qed
  qed
qed

lemma counted_loop: "counted st \<Longrightarrow> counted (parse_loop userDigits oppDigits i st)"
proof (induction userDigits oppDigits i st rule: parse_loop.induct)
  case (1 userDigits oppDigits i st)
  note unfold = parse_loop.simps [of userDigits oppDigits i st]
  show ?case
  proof (cases "i < length userDigits \<and> i < length oppDigits")
    case False
    then have "parse_loop userDigits oppDigits i st = st" using unfold by auto
    then show ?thesis using "1.prems" by simp
  next
    case True
    note step = counted_step [OF "1.prems", of userDigits oppDigits i]
    show ?thesis
    proof (cases "parse_step userDigits oppDigits i st")
      case (Advance1 st')
      with step have "counted st'" by (simp add: step_counted_def)
      then have "counted (parse_loop userDigits oppDigits (i + 1) st')"
        by (rule "1.IH"(1) [OF True Advance1])
      moreover have "parse_loop userDigits oppDigits i st = parse_loop userDigits oppDigits (i + 1) st'"
        using unfold True Advance1 by simp
      ultimately show ?thesis by simp
    next
      case (Advance2 st')
      with step have "counted st'" by (simp add: step_counted_def)
      then have "counted (parse_loop userDigits oppDigits (i + 2) st')"
        by (rule "1.IH"(2) [OF True Advance2])
      moreover have "parse_loop userDigits oppDigits i st = parse_loop userDigits oppDigits (i + 2) st'"
        using unfold True Advance2 by simp
      ultimately show ?thesis by simp
    next
      case (Break st')
      with step have "counted st'" by (simp add: step_counted_def)
      moreover have "parse_loop userDigits oppDigits i st = st'"
        using unfold True Break by simp
      ultimately show ?thesis by simp
    qed
  qed
qed

lemma counted_initial: "counted initial_state"
  by (simp add: counted_def initial_state_def)

lemma stb_scores_candidate:
  assumes "remainingUser \<noteq> []" "remainingOpp \<noteq> []"
  shows "stb_scores nextUser nextOpp remainingUser remainingOpp =
         stb_candidate nextUser nextOpp remainingUser remainingOpp"
proof (cases "cand_indicator_11 nextUser nextOpp remainingUser remainingOpp")
  case (Some c)
  then show ?thesis
    using assms
    by (auto simp: stb_scores_def stb_candidate_def stb_special_def cand_indicator_11_def
        Suc_le_eq split: if_splits)
next
  case None
  then have sp: "stb_special nextUser nextOpp remainingUser remainingOpp = (0, 0)"
    using assms by (auto simp: stb_special_def cand_indicator_11_def Suc_le_eq split: if_splits)
  show ?thesis
  proof (cases "cand_opp_first_two remainingUser remainingOpp")
    case (Some c)
    then show ?thesis
      using None sp assms
      by (auto simp: stb_scores_def stb_candidate_def stb_strategy1_def cand_opp_first_two_def
          Let_def split: if_splits)
  next
    case n2: None
    show ?thesis
    proof (cases "cand_user_first_two remainingUser remainingOpp")
      case (Some c)
      then show ?thesis
        using None n2 sp assms
        by (auto simp: stb_scores_def stb_candidate_def stb_strategy1_def cand_opp_first_two_def
            cand_user_first_two_def Let_def split: if_splits)
    next
      case n3: None
      have "stb_strategy1 nextUser nextOpp remainingUser remainingOpp = (0, 0)"
        using None n2 n3 assms
        by (auto simp: stb_strategy1_def cand_opp_first_two_def cand_user_first_two_def
            cand_indicator_11_def Let_def split: if_splits)
      then show ?thesis
        using None n2 n3 sp by (simp add: stb_scores_def stb_candidate_def)
    qed
  qed
qed

subsection \<open>Claims about the decoder\<close>

text \<open>
  Claim C1, as stated, at the digit runs "3" and "3": the regular-set branch pushes the set
  "3-3" and increments neither counter, so the two counters add up to 0 while one set was
  decoded.
\<close>

theorem decoder_tied_set_counterexample:
  "sets (decode_state ''3'' ''3'') = [''3-3''] \<and>
   userSetsWon (decode_state ''3'' ''3'') + oppSetsWon (decode_state ''3'' ''3'')
     \<noteq> length (sets (decode_state ''3'' ''3''))"
  by code_simp

text \<open>
  Claim C1, amended: for every pair of non-empty digit runs, each decoded set increments
  exactly one of the two set counters, except a regular set with equal games on both sides
  (1-1 to 6-6), which increments neither. So \<open>userSetsWon + oppSetsWon\<close> plus the number of
  such tied sets is the number of sets, the sum of the counters never exceeds the number of
  sets, and whenever the set list is not empty, \<open>won\<close> is \<open>userSetsWon > oppSetsWon\<close>.
\<close>

theorem decoder_set_counters:
  assumes "userScoreStr \<noteq> []" "oppScoreStr \<noteq> []"
  shows "(let st = decode_state userScoreStr oppScoreStr; r = parseScores userScoreStr oppScoreStr in
           dsets r = sets st \<and>
           userSetsWon st + oppSetsWon st + length (filter tied_set (dsets r)) = length (dsets r) \<and>
           userSetsWon st + oppSetsWon st \<le> length (dsets r) \<and>
           (dsets r \<noteq> [] \<longrightarrow> dwon r = Some (userSetsWon st > oppSetsWon st)))"
proof -
  have "counted (decode_state userScoreStr oppScoreStr)"
    unfolding decode_state_def by (rule counted_loop [OF counted_initial])
  then show ?thesis
    using assms by (simp add: parseScores_def Let_def counted_def)
qed

text \<open>
  Claim C1, amended, at the digit runs "66" and "43": two sets, both counted for the first
  side, and \<open>won\<close> is true.
\<close>

theorem decoder_set_counters_witness:
  "''66'' \<noteq> [] \<and> ''43'' \<noteq> [] \<and> dsets (parseScores ''66'' ''43'') \<noteq> [] \<and>
   dsets (parseScores ''66'' ''43'') = sets (decode_state ''66'' ''43'') \<and>
   userSetsWon (decode_state ''66'' ''43'') + oppSetsWon (decode_state ''66'' ''43'')
     + length (filter tied_set (dsets (parseScores ''66'' ''43'')))
     = length (dsets (parseScores ''66'' ''43'')) \<and>
   dwon (parseScores ''66'' ''43'')
     = Some (userSetsWon (decode_state ''66'' ''43'') > oppSetsWon (decode_state ''66'' ''43''))"
proof -
  have ne: "dsets (parseScores ''66'' ''43'') \<noteq> []" by code_simp
  have s: "''66'' \<noteq> []" "''43'' \<noteq> []" by simp_all
  show ?thesis
    using ne s decoder_set_counters [OF s, unfolded Let_def] by blast
qed

text \<open>
  Claim C2 at the digit runs "8" and "3" (an eight-game pro set): no branch of the scan
  emits a set, and the decoder returns the empty set list with \<open>won = false\<close>, a definite
  loss, where the claim requires \<open>won\<close> to be unknown (\<open>null\<close>).
\<close>

theorem decoder_zero_sets_returns_false:
  "parseScores ''8'' ''3'' = \<lparr>dsets = [], dwon = Some False\<rparr> \<and>
   parseScoresFromRawText (Some ''Ann Lee 5.74 8 Bob Ray 4.50 3 | Mar 1'') Singles
     = \<lparr>dsets = [], dwon = Some False\<rparr>"
  by code_simp

text \<open>
  Claim C3, as stated: the third set decoded from "56110" and "7106" is not the string
  "10-6".
\<close>

theorem decode_56110_7106_counterexample:
  "dsets (parseScores ''56110'' ''7106'') \<noteq> [''5-7'', ''6-1'', ''10-6'']"
  by code_simp

text \<open>
  Claim C3, amended: decoding my = "56110", opp = "7106" yields exactly the three sets
  "5-7", "6-1" and "1-0(10-6)" in that order (the super tiebreak is written as the
  indicator 1-0 followed by its score 10-6 in parentheses), with \<open>won = true\<close>.
\<close>

theorem decode_56110_7106:
  "parseScores ''56110'' ''7106'' = \<lparr>dsets = [''5-7'', ''6-1'', ''1-0(10-6)''], dwon = Some True\<rparr>"
  by code_simp

text \<open>
  Claim C4, as stated, at my = "64110", opp = "4609": after the sets 6-4 and 4-6 and the
  indicator pair (1,0), the remaining digits give 10 against 9, and the score is accepted
  although the margin is 1.
\<close>

theorem super_tiebreak_margin_counterexample:
  "stb_accepted (split_digits ''64110'') (split_digits ''4609'') 2 = Some (10, 9) \<and>
   \<not> spec_valid_super_tiebreak 10 9 \<and>
   dsets (parseScores ''64110'' ''4609'') = [''6-4'', ''4-6'', ''1-0(10-9)'']"
  by code_simp

text \<open>
  Claim C4, amended: after a (0,1)/(1,0) indicator pair with digits left on both sides, the
  candidate score is the first that applies of: the "0-11" form (the pair after the
  indicator is (1,1) and the opponent's first remaining digit is 0: 10 for me against my
  first remaining digit); the opponent's first two remaining digits, when they form a number
  of at least 10, against my last remaining digit; my first two remaining digits, when they
  form a number of at least 10 and the opponent has at least two digits left, against the
  opponent's last remaining digit; all remaining digits of each side as one number. The
  candidate is accepted exactly when at least one side is at least 10; no margin is
  required.
\<close>

theorem super_tiebreak_candidates:
  assumes "stb_remaining userDigits oppDigits i = (remainingUser, remainingOpp)"
    and "remainingUser \<noteq> []" and "remainingOpp \<noteq> []"
  shows "stb_accepted userDigits oppDigits i =
     (let c = stb_candidate (next_digit userDigits i) (next_digit oppDigits i)
                remainingUser remainingOpp
      in if fst c \<ge> 10 \<or> snd c \<ge> 10 then Some c else None)"
  using assms stb_scores_candidate [OF assms(2,3)]
  by (simp add: stb_accepted_def Let_def split: prod.splits)

text \<open>Claim C4, amended, at my digits 6,4,1,1,0 and the opponent's digits 4,6,0,9.\<close>

theorem super_tiebreak_candidates_witness:
  "stb_remaining [6, 4, 1, 1, 0] [4, 6, 0, 9] 2 = ([1, 0], [9]) \<and>
   [1, 0] \<noteq> ([] :: nat list) \<and> [9] \<noteq> ([] :: nat list) \<and>
   stb_accepted [6, 4, 1, 1, 0] [4, 6, 0, 9] 2 =
     (let c = stb_candidate (next_digit [6, 4, 1, 1, 0] 2) (next_digit [4, 6, 0, 9] 2) [1, 0] [9]
      in if fst c \<ge> 10 \<or> snd c \<ge> 10 then Some c else None)"
proof -
  have r: "stb_remaining [6, 4, 1, 1, 0] [4, 6, 0, 9] 2 = ([1, 0], [9])"
    by (simp add: stb_remaining_def next_digit_def)
  show ?thesis
    using r super_tiebreak_candidates [OF r] by simp
qed


subsection \<open>The walkover counter is independent of the rest\<close>

lemma update_record_wk: "update_record m (with_walkovers x st) = with_walkovers x (update_record m st)"
  by (simp add: update_record_def with_walkovers_def Let_def)

lemma update_rated_wk: "update_rated m (with_walkovers x st) = with_walkovers x (update_rated m st)"
  by (simp add: update_rated_def with_walkovers_def Let_def)

lemma track_opponents_wk:
  "track_opponents type m (with_walkovers x st) = with_walkovers x (track_opponents type m st)"
  by (auto simp: track_opponents_def with_walkovers_def Let_def)

lemma super_won_wk: "super_won (lift_walkovers x p) = lift_walkovers x (super_won p)"
  by (cases p) (simp add: super_won_def lift_walkovers_def with_walkovers_def)

lemma super_lost_wk: "super_lost (lift_walkovers x p) = lift_walkovers x (super_lost p)"
  by (cases p) (simp add: super_lost_def lift_walkovers_def with_walkovers_def)

lemma tiebreak_set_wk: "tiebreak_set a b (lift_walkovers x p) = lift_walkovers x (tiebreak_set a b p)"
  by (cases p) (simp add: tiebreak_set_def lift_walkovers_def with_walkovers_def Let_def)

lemma regular_set_wk: "regular_set a b (lift_walkovers x p) = lift_walkovers x (regular_set a b p)"
  by (cases p) (simp add: regular_set_def lift_walkovers_def with_walkovers_def Let_def)

lemma analyze_set_wk: "analyze_set s (lift_walkovers x p) = lift_walkovers x (analyze_set s p)"
  by (simp add: analyze_set_def super_won_wk super_lost_wk tiebreak_set_wk regular_set_wk Let_def
      split: option.splits prod.splits)

lemma analyze_fold_wk:
  "foldl (\<lambda>p s. analyze_set s p) (lift_walkovers x p) ss
   = lift_walkovers x (foldl (\<lambda>p s. analyze_set s p) p ss)"
  by (induction ss arbitrary: p) (simp_all add: analyze_set_wk)

lemma analyze_sets_wk:
  "analyze_sets ss (with_walkovers x st) = lift_walkovers x (analyze_sets ss st)"
  using analyze_fold_wk [of x "(initial_acc, st)" ss]
  by (simp add: analyze_sets_def lift_walkovers_def)

lemma games_differential_wk:
  "games_differential m acc (with_walkovers x st) = with_walkovers x (games_differential m acc st)"
  by (simp add: games_differential_def with_walkovers_def)

lemma track_games_wk:
  "track_games type m acc (with_walkovers x st) = with_walkovers x (track_games type m acc st)"
  by (simp add: track_games_def with_walkovers_def Let_def split: option.splits)

lemma deciding_sets_wk:
  "deciding_sets m acc (with_walkovers x st) = with_walkovers x (deciding_sets m acc st)"
  by (simp add: deciding_sets_def with_walkovers_def)

lemma set_totals_wk:
  "(with_walkovers x st)\<lparr>setsRecordWon := a, setsRecordLost := b, gamesRecordWon := c, gamesRecordLost := d\<rparr>
   = with_walkovers x (st\<lparr>setsRecordWon := a, setsRecordLost := b, gamesRecordWon := c, gamesRecordLost := d\<rparr>)"
  by (simp add: with_walkovers_def)

lemma with_walkovers_sel:
  "setsRecordWon (with_walkovers x st) = setsRecordWon st"
  "setsRecordLost (with_walkovers x st) = setsRecordLost st"
  "gamesRecordWon (with_walkovers x st) = gamesRecordWon st"
  "gamesRecordLost (with_walkovers x st) = gamesRecordLost st"
  "matches (with_walkovers x st) = matches st"
  "walkovers (with_walkovers x st) = x"
  by (simp_all add: with_walkovers_def)

lemma set_analysis_wk:
  "set_analysis type m (with_walkovers x st) = with_walkovers x (set_analysis type m st)"
proof (cases "analyze_sets (msets m) st")
  case (Pair acc st1)
  then have "analyze_sets (msets m) (with_walkovers x st) = (acc, with_walkovers x st1)"
    by (simp add: analyze_sets_wk lift_walkovers_def)
  with Pair show ?thesis
    by (simp add: set_analysis_def Let_def with_walkovers_sel set_totals_wk
        games_differential_wk track_games_wk deciding_sets_wk)
qed

lemma push_match_wk: "push_match m (with_walkovers x st) = with_walkovers x (push_match m st)"
  by (simp add: push_match_def with_walkovers_def)

lemma played_step_wk:
  "played_step type m (with_walkovers x st) = with_walkovers x (played_step type m st)"
  by (simp add: played_step_def update_record_wk update_rated_wk track_opponents_wk
      set_analysis_wk push_match_wk)

lemma with_walkovers_same: "with_walkovers (walkovers st) st = st"
  by (simp add: with_walkovers_def)

lemma played_step_walkovers: "walkovers (played_step type m st) = walkovers st"
proof -
  have "walkovers (played_step type m (with_walkovers (walkovers st) st)) = walkovers st"
    by (simp only: played_step_wk with_walkovers_sel)
  then show ?thesis by (simp only: with_walkovers_same)
qed

lemma process_match_wk:
  "process_match type (with_walkovers (walkovers st + k) st) m
   = with_walkovers (walkovers (process_match type st m) + k) (process_match type st m)"
proof (cases "isWalkover m")
  case True
  then show ?thesis by (simp add: process_match_def with_walkovers_def)
next
  case False
  then have "process_match type st' m = played_step type m st'" for st'
    by (simp add: process_match_def played_step_def)
  then show ?thesis by (simp add: played_step_wk played_step_walkovers)
qed

lemma fold_matches_wk:
  "fold_matches type (with_walkovers (walkovers st + k) st) ms
   = with_walkovers (walkovers (fold_matches type st ms) + k) (fold_matches type st ms)"
proof (induction ms arbitrary: st)
  case Nil
  then show ?case by (simp add: fold_matches_def)
next
  case (Cons m ms)
  have "fold_matches type (with_walkovers (walkovers st + k) st) (m # ms)
      = fold_matches type (process_match type (with_walkovers (walkovers st + k) st) m) ms"
    by (simp add: fold_matches_def)
  also have "\<dots> = fold_matches type
      (with_walkovers (walkovers (process_match type st m) + k) (process_match type st m)) ms"
    by (simp only: process_match_wk)
  also have "\<dots> = with_walkovers (walkovers (fold_matches type (process_match type st m) ms) + k)
      (fold_matches type (process_match type st m) ms)"
    by (rule Cons.IH)
  finally show ?case by (simp add: fold_matches_def)
qed

lemma fold_matches_append:
  "fold_matches type st (xs @ ys) = fold_matches type (fold_matches type st xs) ys"
  by (simp add: fold_matches_def)

lemma fold_matches_walkover:
  assumes "isWalkover w"
  shows "fold_matches type st (xs @ w # ys)
       = with_walkovers (walkovers (fold_matches type st (xs @ ys)) + 1) (fold_matches type st (xs @ ys))"
proof -
  let ?s = "fold_matches type st xs"
  have "fold_matches type st (xs @ w # ys) = fold_matches type (process_match type ?s w) ys"
    by (simp add: fold_matches_def)
  also have "process_match type ?s w = with_walkovers (walkovers ?s + 1) ?s"
    using assms by (simp add: process_match_def with_walkovers_def)
  also have "fold_matches type (with_walkovers (walkovers ?s + 1) ?s) ys
      = with_walkovers (walkovers (fold_matches type ?s ys) + 1) (fold_matches type ?s ys)"
    by (rule fold_matches_wk)
  finally show ?thesis by (simp only: fold_matches_append)
qed


subsection \<open>Games differential and deciding sets of one match\<close>

lemma update_record_counters: "counters (update_record m st) = counters st"
  by (simp add: update_record_def counters_def Let_def)

lemma update_rated_counters: "counters (update_rated m st) = counters st"
  by (simp add: update_rated_def counters_def Let_def)

lemma track_opponents_counters: "counters (track_opponents type m st) = counters st"
  by (simp add: track_opponents_def counters_def Let_def)

lemma track_games_counters: "counters (track_games type m acc st) = counters st"
  by (simp add: track_games_def counters_def Let_def split: option.splits)

lemma push_match_counters: "counters (push_match m st) = counters st"
  by (simp add: push_match_def counters_def)

lemma analyze_set_counters: "counters (snd (analyze_set s p)) = counters (snd p)"
  by (cases p)
    (simp add: analyze_set_def super_won_def super_lost_def tiebreak_set_def regular_set_def
      counters_def Let_def split: option.splits prod.splits)

lemma analyze_fold_counters:
  "counters (snd (foldl (\<lambda>p s. analyze_set s p) p ss)) = counters (snd p)"
  by (induction ss arbitrary: p) (simp_all add: analyze_set_counters)

lemma analyze_sets_counters: "counters (snd (analyze_sets ss st)) = counters st"
  using analyze_fold_counters [of "(initial_acc, st)" ss] by (simp add: analyze_sets_def)

lemma set_totals_counters:
  "counters (st\<lparr>setsRecordWon := a, setsRecordLost := b, gamesRecordWon := c, gamesRecordLost := d\<rparr>)
   = counters st"
  by (simp add: counters_def)

lemma games_differential_counters:
  "counters (games_differential m acc st) =
    (wonWithFewer st + fst (differential_of m acc), lostWithMore st + snd (differential_of m acc),
     decidingSetsWon st, decidingSetsLost st)"
  by (simp add: games_differential_def differential_of_def counters_def)

lemma deciding_sets_counters:
  "counters (deciding_sets m acc st) =
    (wonWithFewer st, lostWithMore st,
     decidingSetsWon st + fst (decider_of m acc), decidingSetsLost st + snd (decider_of m acc))"
  by (simp add: deciding_sets_def decider_of_def counters_def)

lemma counters_sel:
  "counters st = (a, b, c, d) \<Longrightarrow>
     wonWithFewer st = a \<and> lostWithMore st = b \<and> decidingSetsWon st = c \<and> decidingSetsLost st = d"
  by (simp add: counters_def)

lemma set_analysis_counters:
  assumes "msets m \<noteq> []"
  shows "counters (set_analysis type m st) =
    (let acc = fst (analyze_sets (msets m) st) in
     (wonWithFewer st + fst (differential_of m acc), lostWithMore st + snd (differential_of m acc),
      decidingSetsWon st + fst (decider_of m acc), decidingSetsLost st + snd (decider_of m acc)))"
proof (cases "analyze_sets (msets m) st")
  case (Pair acc st1)
  let ?st2 = "st1\<lparr>setsRecordWon := setsRecordWon st1 + setsWon acc,
                   setsRecordLost := setsRecordLost st1 + setsLost acc,
                   gamesRecordWon := gamesRecordWon st1 + matchGamesWon acc,
                   gamesRecordLost := gamesRecordLost st1 + matchGamesLost acc\<rparr>"
  let ?st3 = "games_differential m acc ?st2"
  let ?st4 = "track_games type m acc ?st3"
  have c1: "counters st1 = counters st"
    using analyze_sets_counters [of "msets m" st] Pair by simp
  have c2: "counters ?st2 = counters st"
    using c1 by (simp only: set_totals_counters)
  have s2: "wonWithFewer ?st2 = wonWithFewer st" "lostWithMore ?st2 = lostWithMore st"
    "decidingSetsWon ?st2 = decidingSetsWon st" "decidingSetsLost ?st2 = decidingSetsLost st"
    using c2 by (simp_all add: counters_def)
  have c3: "counters ?st3 =
      (wonWithFewer st + fst (differential_of m acc), lostWithMore st + snd (differential_of m acc),
       decidingSetsWon st, decidingSetsLost st)"
    by (simp only: games_differential_counters s2)
  have c4: "counters ?st4 = counters ?st3" by (rule track_games_counters)
  note s4 = counters_sel [OF c4 [unfolded c3]]
  have "counters (deciding_sets m acc ?st4) =
      (wonWithFewer st + fst (differential_of m acc), lostWithMore st + snd (differential_of m acc),
       decidingSetsWon st + fst (decider_of m acc), decidingSetsLost st + snd (decider_of m acc))"
    by (simp only: deciding_sets_counters s4)
  moreover have "set_analysis type m st = deciding_sets m acc ?st4"
    using assms Pair by (simp add: set_analysis_def Let_def)
  ultimately show ?thesis using Pair by (simp add: Let_def)
qed

lemma set_analysis_no_sets: "msets m = [] \<Longrightarrow> set_analysis type m st = st"
  by (simp add: set_analysis_def)

lemma set_analysis_mono:
  "wonWithFewer st \<le> wonWithFewer (set_analysis type m st) \<and>
   lostWithMore st \<le> lostWithMore (set_analysis type m st)"
proof (cases "msets m = []")
  case True
  then show ?thesis by (simp add: set_analysis_no_sets)
next
  case False
  from counters_sel [OF set_analysis_counters [OF False, of type st, unfolded Let_def]]
  show ?thesis by simp
qed

lemma played_step_mono:
  "wonWithFewer st \<le> wonWithFewer (played_step type m st) \<and>
   lostWithMore st \<le> lostWithMore (played_step type m st)"
proof -
  let ?s = "track_opponents type m (update_rated m (update_record m st))"
  have "counters ?s = counters st"
    by (simp only: track_opponents_counters update_rated_counters update_record_counters)
  then have s: "wonWithFewer ?s = wonWithFewer st" "lostWithMore ?s = lostWithMore st"
    by (simp_all add: counters_def)
  have "counters (played_step type m st) = counters (set_analysis type m ?s)"
    by (simp only: played_step_def push_match_counters)
  then have p: "wonWithFewer (played_step type m st) = wonWithFewer (set_analysis type m ?s)"
    "lostWithMore (played_step type m st) = lostWithMore (set_analysis type m ?s)"
    by (simp_all add: counters_def)
  show ?thesis using set_analysis_mono [of ?s type m] s p by simp
qed

lemma process_match_played: "\<not> isWalkover m \<Longrightarrow> process_match type st m = played_step type m st"
  by (simp add: process_match_def played_step_def)

lemma process_match_mono:
  "wonWithFewer st \<le> wonWithFewer (process_match type st m) \<and>
   lostWithMore st \<le> lostWithMore (process_match type st m)"
proof (cases "isWalkover m")
  case True
  then show ?thesis by (simp add: process_match_def)
next
  case False
  then show ?thesis using played_step_mono [of st type m] by (simp add: process_match_played)
qed

lemma fold_matches_mono:
  "wonWithFewer st \<le> wonWithFewer (fold_matches type st ms) \<and>
   lostWithMore st \<le> lostWithMore (fold_matches type st ms)"
proof (induction ms arbitrary: st)
  case Nil
  then show ?case by (simp add: fold_matches_def)
next
  case (Cons m ms)
  have "fold_matches type st (m # ms) = fold_matches type (process_match type st m) ms"
    by (simp add: fold_matches_def)
  then show ?case
    using Cons.IH [of "process_match type st m"] process_match_mono [of st type m] by simp
qed


lemma set_acc_eq:
  "(a :: set_acc) = b \<longleftrightarrow> setsWon a = setsWon b \<and> setsLost a = setsLost b \<and>
     matchGamesWon a = matchGamesWon b \<and> matchGamesLost a = matchGamesLost b \<and>
     hasSuperTiebreak a = hasSuperTiebreak b"
  by (cases a, cases b) auto

lemma super_won_effect: "fst (super_won (acc, st)) = add_effect acc (fst (super_won (initial_acc, st')))"
  by (simp add: super_won_def add_effect_def initial_acc_def set_acc_eq)

lemma super_lost_effect: "fst (super_lost (acc, st)) = add_effect acc (fst (super_lost (initial_acc, st')))"
  by (simp add: super_lost_def add_effect_def initial_acc_def set_acc_eq)

lemma tiebreak_set_effect:
  "fst (tiebreak_set a b (acc, st)) = add_effect acc (fst (tiebreak_set a b (initial_acc, st')))"
  by (simp add: tiebreak_set_def add_effect_def initial_acc_def set_acc_eq Let_def)

lemma regular_set_effect:
  "fst (regular_set a b (acc, st)) = add_effect acc (fst (regular_set a b (initial_acc, st')))"
  by (simp add: regular_set_def add_effect_def initial_acc_def set_acc_eq Let_def)

lemma add_effect_initial: "add_effect acc initial_acc = acc"
  by (simp add: add_effect_def initial_acc_def set_acc_eq)

lemma analyze_set_effect: "fst (analyze_set s (acc, st)) = add_effect acc (set_effect s)"
  unfolding set_effect_def analyze_set_def
  by (simp add: Let_def add_effect_initial
      super_won_effect [of acc st initial_stats] super_lost_effect [of acc st initial_stats]
      tiebreak_set_effect [of _ _ acc st initial_stats]
      regular_set_effect [of _ _ acc st initial_stats]
      split: option.splits prod.splits)

lemma analyze_fold_effect:
  "fst (foldl (\<lambda>p s. analyze_set s p) p ss) = foldl add_effect (fst p) (map set_effect ss)"
proof (induction ss arbitrary: p)
  case Nil
  then show ?case by simp
next
  case (Cons s ss)
  obtain acc st where p: "p = (acc, st)" by (cases p)
  show ?case using Cons.IH [of "analyze_set s p"] by (simp add: p analyze_set_effect)
qed

lemma fold_effect_sets:
  "setsWon (foldl add_effect acc es) \<ge> 1 \<longleftrightarrow> setsWon acc \<ge> 1 \<or> list_ex (\<lambda>e. setsWon e \<ge> 1) es"
  "setsLost (foldl add_effect acc es) \<ge> 1 \<longleftrightarrow> setsLost acc \<ge> 1 \<or> list_ex (\<lambda>e. setsLost e \<ge> 1) es"
  "hasSuperTiebreak (foldl add_effect acc es) \<longleftrightarrow> hasSuperTiebreak acc \<or> list_ex hasSuperTiebreak es"
  by (induction es arbitrary: acc) (auto simp: add_effect_def)


subsection \<open>First and last row of a stable sort\<close>

lemma sort_key_nonempty: "xs \<noteq> [] \<Longrightarrow> sort_key f xs \<noteq> []"
  by (metis length_sort length_0_conv)

lemma hd_sort_key_least:
  assumes "xs \<noteq> []"
  shows "hd (sort_key f xs) \<in> set xs" and "\<forall>z \<in> set xs. f (hd (sort_key f xs)) \<le> f z"
proof -
  let ?ys = "sort_key f xs"
  have ne: "?ys \<noteq> []" using assms by (rule sort_key_nonempty)
  then obtain y ys where ys: "?ys = y # ys" by (cases ?ys) auto
  have set: "set ?ys = set xs" by simp
  have "sorted (map f ?ys)" by (rule sorted_sort_key)
  then have "\<forall>z \<in> set ys. f y \<le> f z" by (simp add: ys)
  then have "\<forall>z \<in> set ?ys. f (hd ?ys) \<le> f z" using ys by auto
  then show "\<forall>z \<in> set xs. f (hd ?ys) \<le> f z" by (simp only: set)
  show "hd ?ys \<in> set xs" using set ne hd_in_set by blast
qed

lemma last_sort_key_greatest:
  assumes "xs \<noteq> []"
  shows "last (sort_key f xs) \<in> set xs" and "\<forall>z \<in> set xs. f z \<le> f (last (sort_key f xs))"
proof -
  let ?ys = "sort_key f xs"
  have ne: "?ys \<noteq> []" using assms by (rule sort_key_nonempty)
  have srt: "sorted (map f ?ys)" by (rule sorted_sort_key)
  have set: "set ?ys = set xs" by simp
  have le: "f z \<le> f (last ?ys)" if "z \<in> set xs" for z
  proof -
    from that set obtain i where i: "i < length ?ys" "?ys ! i = z" by (metis in_set_conv_nth)
    have "map f ?ys ! i \<le> map f ?ys ! (length ?ys - 1)"
      using srt i(1) by (intro sorted_nth_mono) auto
    then show ?thesis using i ne by (simp add: last_conv_nth)
  qed
  then show "\<forall>z \<in> set xs. f z \<le> f (last ?ys)" by blast
  show "last ?ys \<in> set xs" using ne set last_in_set by blast
qed

lemma last_filter_holds: "xs \<noteq> [] \<Longrightarrow> P (last xs) \<Longrightarrow> last (filter P xs) = last xs"
  by (cases xs rule: rev_cases) auto

lemma first_row_best:
  assumes "xs \<noteq> []"
  shows "hd (sort_key (\<lambda>r. - winPct r) (xs :: month_row list))
         = hd (filter (\<lambda>r. winPct r = Max (set (map winPct xs))) xs)"
proof -
  let ?f = "\<lambda>r :: month_row. - winPct r"
  let ?ys = "sort_key ?f xs" and ?k = "Max (set (map winPct xs))"
  have ne: "?ys \<noteq> []" using assms by (rule sort_key_nonempty)
  have "Max (winPct ` set xs) = winPct (hd ?ys)"
    using hd_sort_key_least [OF assms, of ?f] by (intro Max_eqI) auto
  then have k: "winPct (hd ?ys) = ?k" by simp
  have "filter (\<lambda>x. ?f x = - ?k) ?ys = filter (\<lambda>x. ?f x = - ?k) xs"
    by (rule sort_key_stable)
  then have "filter (\<lambda>x. winPct x = ?k) ?ys = filter (\<lambda>x. winPct x = ?k) xs" by simp
  moreover have "hd (filter (\<lambda>x. winPct x = ?k) ?ys) = hd ?ys"
    using ne k by (cases ?ys) auto
  ultimately show ?thesis by simp
qed

lemma last_row_worst:
  assumes "xs \<noteq> []"
  shows "last (sort_key (\<lambda>r. - winPct r) (xs :: month_row list))
         = last (filter (\<lambda>r. winPct r = Min (set (map winPct xs))) xs)"
proof -
  let ?f = "\<lambda>r :: month_row. - winPct r"
  let ?ys = "sort_key ?f xs" and ?k = "Min (set (map winPct xs))"
  have ne: "?ys \<noteq> []" using assms by (rule sort_key_nonempty)
  have "Min (winPct ` set xs) = winPct (last ?ys)"
    using last_sort_key_greatest [OF assms, of ?f] by (intro Min_eqI) auto
  then have k: "winPct (last ?ys) = ?k" by simp
  have "filter (\<lambda>x. ?f x = - ?k) ?ys = filter (\<lambda>x. ?f x = - ?k) xs"
    by (rule sort_key_stable)
  then have "filter (\<lambda>x. winPct x = ?k) ?ys = filter (\<lambda>x. winPct x = ?k) xs" by simp
  moreover have "last (filter (\<lambda>x. winPct x = ?k) ?ys) = last ?ys"
    using ne k by (intro last_filter_holds) auto
  ultimately show ?thesis by simp
qed


subsection \<open>What each kind of set contributes\<close>

text \<open>
  Numbers written by \<open>show_nat\<close> are read back by \<open>parseInt\<close>, and the set strings the decoder
  writes are classified as follows by the per-set analysis: a pair of games up to 7-7,
  other than 0-0, 0-1, 1-0 and 1-1, adds its games; 7-6 and 6-7 with a tiebreak score add 7
  and 6; a super tiebreak in any of its forms adds no game, one set and the flag.
\<close>

lemma digit_char_is_digit: "d < 10 \<Longrightarrow> is_digit (digit_char d)"
  using below_ten [of d] by (auto simp: digit_char_def is_digit_def)

lemma hex_value_digit_char: "d < 10 \<Longrightarrow> hex_value (digit_char d) = d"
  using below_ten [of d] by (auto simp: digit_char_def is_digit_def hex_value_def)

lemma show_nat_step: "\<not> n < 10 \<Longrightarrow> show_nat n = show_nat (n div 10) @ [digit_char (n mod 10)]"
  by (subst show_nat.simps) simp

lemma show_nat_digits: "list_all is_digit (show_nat n)"
proof (induction n rule: show_nat.induct)
  case (1 n)
  show ?case
  proof (cases "n < 10")
    case True
    then show ?thesis by (simp add: digit_char_is_digit)
  next
    case False
    then show ?thesis using 1 by (simp add: show_nat_step digit_char_is_digit)
  qed
qed

lemma show_nat_nonempty: "show_nat n \<noteq> []"
  using show_nat_length [of n] by auto

lemma show_nat_value: "foldl (\<lambda>a c. 10 * a + hex_value c) 0 (show_nat n) = n"
proof (induction n rule: show_nat.induct)
  case (1 n)
  show ?case
  proof (cases "n < 10")
    case True
    then show ?thesis by (simp add: hex_value_digit_char)
  next
    case False
    then show ?thesis using 1 by (simp add: show_nat_step hex_value_digit_char)
  qed
qed

lemma digit_facts:
  assumes "is_digit c"
  shows "\<not> is_space c" "c \<noteq> CHR ''-''" "c \<noteq> CHR ''+''" "c \<noteq> CHR ''x''" "c \<noteq> CHR ''X''"
    "c \<noteq> CHR ''(''" "c \<noteq> CHR '')''"
  using assms by (auto simp: is_digit_def is_space_def)

lemma takeWhile_all: "list_all P xs \<Longrightarrow> \<not> P y \<Longrightarrow> takeWhile P (xs @ y # ys) = xs"
  by (induction xs) auto

lemma dropWhile_all: "list_all P xs \<Longrightarrow> \<not> P y \<Longrightarrow> dropWhile P (xs @ y # ys) = y # ys"
  by (induction xs) auto

lemma takeWhile_whole: "list_all P xs \<Longrightarrow> takeWhile P xs = xs"
  by (induction xs) auto

lemma parseInt_digits_only:
  assumes "list_all is_digit ds" "ds \<noteq> []"
  shows "parseInt ds = Some (int (foldl (\<lambda>a c. 10 * a + hex_value c) 0 ds))"
proof -
  obtain c cs where ds: "ds = c # cs" using assms(2) by (cases ds) auto
  have c: "is_digit c" using assms(1) ds by simp
  have hd: "hd ds = c" by (simp add: ds)
  have t: "dropWhile is_space ds = ds" using digit_facts(1) [OF c] by (simp add: ds)
  have sign: "\<not> (hd ds = CHR ''-'')" "\<not> (hd ds = CHR ''+'')"
    using digit_facts(2,3) [OF c] by (simp_all only: hd not_False_eq_True)
  have nohex: "\<not> (length ds \<ge> 2 \<and> hd ds = CHR ''0'' \<and> (ds ! 1 = CHR ''x'' \<or> ds ! 1 = CHR ''X''))"
  proof (cases cs)
    case Nil
    then show ?thesis by (simp add: ds)
  next
    case (Cons d es)
    then have "is_digit d" using assms(1) ds by simp
    then have "d \<noteq> CHR ''x''" "d \<noteq> CHR ''X''" by (rule digit_facts)+
    moreover have "ds ! 1 = d" by (simp add: ds Cons)
    ultimately show ?thesis by simp
  qed
  have tw: "takeWhile is_digit ds = ds" using assms(1) by (rule takeWhile_whole)
  show ?thesis
    by (simp only: parseInt_def Let_def t sign nohex tw assms(2) if_False simp_thms)
qed

lemma parseInt_show_nat: "parseInt (show_nat n) = Some (int n)"
  by (simp only: parseInt_digits_only [OF show_nat_digits show_nat_nonempty] show_nat_value)

lemma digits_no_special:
  assumes "list_all is_digit u"
  shows "CHR ''-'' \<notin> set u" "CHR ''('' \<notin> set u" "CHR '')'' \<notin> set u"
proof -
  have d: "is_digit c" if "c \<in> set u" for c using assms that by (simp add: list_all_iff)
  show "CHR ''-'' \<notin> set u" using d digit_facts(2) by blast
  show "CHR ''('' \<notin> set u" using d digit_facts(6) by blast
  show "CHR '')'' \<notin> set u" using d digit_facts(7) by blast
qed

lemma split_on_no_sep: "sep \<notin> set u \<Longrightarrow> split_on sep u = [u]"
  by (induction u) auto

lemma split_on_append: "sep \<notin> set u \<Longrightarrow> split_on sep (u @ sep # v) = u # split_on sep v"
  by (induction u) auto

lemma strip_no_paren: "CHR ''('' \<notin> set s \<Longrightarrow> strip_parenthetical s = s"
  by (induction s) auto

lemma paren_score_digits:
  assumes "list_all is_digit u" "u \<noteq> []" "list_all is_digit v" "v \<noteq> []"
  shows "paren_score (CHR ''('' # u @ CHR ''-'' # v @ '')'') = Some (u, v)"
proof -
  have nd: "\<not> is_digit CHR ''-''" "\<not> is_digit CHR '')''" by (simp_all add: is_digit_def)
  have 1: "takeWhile is_digit (u @ CHR ''-'' # v @ '')'') = u"
    using assms(1) nd(1) by (rule takeWhile_all)
  have 2: "dropWhile is_digit (u @ CHR ''-'' # v @ '')'') = CHR ''-'' # v @ '')''"
    using assms(1) nd(1) by (rule dropWhile_all)
  have 3: "takeWhile is_digit (v @ '')'') = v"
    using takeWhile_all [OF assms(3) nd(2), of "[]"] by simp
  have 4: "dropWhile is_digit (v @ '')'') = '')''"
    using dropWhile_all [OF assms(3) nd(2), of "[]"] by simp
  show ?thesis
    using assms(2,4) nd by (simp add: paren_score_def Let_def 1 2 3 4)
qed

lemma paren_str_unfold: "paren_str x y = CHR ''('' # show_nat x @ CHR ''-'' # show_nat y @ '')''"
  by (simp add: paren_str_def score_str_def)

lemma paren_score_paren_str: "paren_score (paren_str x y) = Some (show_nat x, show_nat y)"
  unfolding paren_str_unfold
  by (rule paren_score_digits) (simp_all add: show_nat_digits show_nat_nonempty)

lemma parseInt_one_zero:
  "parseInt ''1'' = Some 1" "parseInt ''0'' = Some 0" "parseInt ''6'' = Some 6" "parseInt ''7'' = Some 7"
  by code_simp+

lemma super_scored_effect:
  "set_effect (''1-0'' @ paren_str x y) = effect 1 0 0 0 True"
  "set_effect (''0-1'' @ paren_str x y) = effect 0 1 0 0 True"
  by (simp_all add: set_effect_def analyze_set_def superTiebreakMatch_def paren_score_paren_str
      parseInt_one_zero super_won_def super_lost_def initial_acc_def effect_def)

lemma super_unscored_effect:
  "set_effect ''1-0'' = effect 1 0 0 0 True"
  "set_effect ''0-1'' = effect 0 1 0 0 True"
  by code_simp+

lemma not_super_rest: "superTiebreakMatch (CHR ''7'' # cs) = None" "superTiebreakMatch (CHR ''6'' # cs) = None"
  by (simp_all add: superTiebreakMatch_def split: list.splits)

lemma tiebreak_scored_effect:
  "set_effect (''7-6'' @ paren_str x y) = effect 1 0 7 6 False"
  "set_effect (''6-7'' @ paren_str x y) = effect 0 1 6 7 False"
  using paren_str_length [of x y]
  by (simp_all add: set_effect_def analyze_set_def not_super_rest superTiebreakNoScore_def
      tiebreakMatch_def paren_score_paren_str parseInt_one_zero tiebreak_set_def initial_acc_def
      effect_def Let_def split: list.splits)

lemma paren_score_digit_head: "is_digit c \<Longrightarrow> paren_score (c # r) = None"
  using digit_facts(6) by (simp add: paren_score_def Let_def)

lemma long_pair_not_special:
  assumes u: "list_all is_digit u" "u \<noteq> []" and v: "list_all is_digit v" "v \<noteq> []"
    and long: "length u \<ge> 2 \<or> length v \<ge> 2"
  shows "superTiebreakMatch (u @ CHR ''-'' # v) = None"
    and "\<not> superTiebreakNoScore (u @ CHR ''-'' # v)"
    and "tiebreakMatch (u @ CHR ''-'' # v) = None"
proof -
  obtain a u' where ua: "u = a # u'" using u(2) by (cases u) auto
  obtain b v' where vb: "v = b # v'" using v(2) by (cases v) auto
  show "\<not> superTiebreakNoScore (u @ CHR ''-'' # v)"
  proof (cases u')
    case Nil
    then obtain c v'' where "v' = c # v''" using long ua vb by (cases v') auto
    then show ?thesis by (simp add: superTiebreakNoScore_def ua vb Nil)
  next
    case (Cons m u'')
    then show ?thesis by (simp add: superTiebreakNoScore_def ua vb split: list.splits)
  qed
  show "superTiebreakMatch (u @ CHR ''-'' # v) = None"
  proof (cases u')
    case Nil
    then obtain c v'' where c: "v' = c # v''" using long ua vb by (cases v') auto
    then have "is_digit c" using v(1) vb by simp
    then show ?thesis
      by (simp add: superTiebreakMatch_def ua vb Nil c paren_score_digit_head)
  next
    case (Cons m u'')
    then have "is_digit m" using u(1) ua by simp
    then have "m \<noteq> CHR ''-''" by (rule digit_facts)
    then show ?thesis by (simp add: superTiebreakMatch_def ua Cons split: list.splits)
  qed
  show "tiebreakMatch (u @ CHR ''-'' # v) = None"
  proof (cases u')
    case Nil
    then obtain c v'' where c: "v' = c # v''" using long ua vb by (cases v') auto
    then have "is_digit c" using v(1) vb by simp
    then show ?thesis
      by (simp add: tiebreakMatch_def ua vb Nil c paren_score_digit_head)
  next
    case (Cons m u'')
    then have "is_digit m" using u(1) ua by simp
    then have "m \<noteq> CHR ''-''" by (rule digit_facts)
    then show ?thesis by (simp add: tiebreakMatch_def ua Cons split: list.splits)
  qed
qed

lemma pair_parts:
  assumes "list_all is_digit u" "list_all is_digit v"
  shows "split_on CHR ''-'' (strip_parenthetical (u @ CHR ''-'' # v)) = [u, v]"
proof -
  have "CHR ''('' \<notin> set (u @ CHR ''-'' # v)"
    using digits_no_special(2) [OF assms(1)] digits_no_special(2) [OF assms(2)] by simp
  then have "strip_parenthetical (u @ CHR ''-'' # v) = u @ CHR ''-'' # v" by (rule strip_no_paren)
  then show ?thesis
    using digits_no_special(1) [OF assms(1)] digits_no_special(1) [OF assms(2)]
    by (simp add: split_on_append split_on_no_sep)
qed

lemma big_score_effect:
  assumes "x \<ge> 10 \<or> y \<ge> 10"
  shows "set_effect (score_str x y) = effect (if x > y then 1 else 0) (if x > y then 0 else 1) 0 0 True"
proof -
  let ?u = "show_nat x" and ?v = "show_nat y"
  have s: "score_str x y = ?u @ CHR ''-'' # ?v" by (simp add: score_str_def)
  have long: "length ?u \<ge> 2 \<or> length ?v \<ge> 2"
    using assms show_nat_length2 by blast
  note ns = long_pair_not_special [OF show_nat_digits show_nat_nonempty show_nat_digits show_nat_nonempty long]
  have parts: "split_on CHR ''-'' (strip_parenthetical (?u @ CHR ''-'' # ?v)) = [?u, ?v]"
    by (rule pair_parts [OF show_nat_digits show_nat_digits])
  show ?thesis
    using assms
    by (auto simp: set_effect_def analyze_set_def s ns parts Let_def parseInt_show_nat
        super_won_def super_lost_def initial_acc_def effect_def)
qed

lemma regular_pairs_effect:
  "list_all (\<lambda>(a, b). (a \<le> 1 \<and> b \<le> 1) \<or> set_effect (score_str a b)
      = effect (if a > b then 1 else 0) (if a > b then 0 else if b > a \<or> 6 \<le> a then 1 else 0)
          (int a) (int b) False) (List.product game_counts game_counts)"
  by code_simp

lemma game_counts_mem: "a \<le> 7 \<Longrightarrow> a \<in> set game_counts"
  by (auto simp: game_counts_def)

lemma regular_effect:
  assumes "a \<le> 7" "b \<le> 7" "\<not> (a \<le> 1 \<and> b \<le> 1)"
  shows "set_effect (score_str a b)
      = effect (if a > b then 1 else 0) (if a > b then 0 else if b > a \<or> 6 \<le> a then 1 else 0)
          (int a) (int b) False"
proof -
  have "(a, b) \<in> set (List.product game_counts game_counts)"
    using game_counts_mem [OF assms(1)] game_counts_mem [OF assms(2)] by simp
  then have "(a \<le> 1 \<and> b \<le> 1) \<or> set_effect (score_str a b)
      = effect (if a > b then 1 else 0) (if a > b then 0 else if b > a \<or> 6 \<le> a then 1 else 0)
          (int a) (int b) False"
    using regular_pairs_effect unfolding list_all_iff by fast
  then show ?thesis using assms(3) by blast
qed


subsection \<open>Set and game totals of one match\<close>

text \<open>
  A match that is not a walkover adds to the set and game totals of the season the sum of
  what each of its sets contributes.
\<close>

lemma update_record_totals: "totals (update_record m st) = totals st"
  by (simp add: update_record_def totals_def Let_def)

lemma update_rated_totals: "totals (update_rated m st) = totals st"
  by (simp add: update_rated_def totals_def Let_def)

lemma track_opponents_totals: "totals (track_opponents type m st) = totals st"
  by (simp add: track_opponents_def totals_def Let_def)

lemma track_games_totals: "totals (track_games type m acc st) = totals st"
  by (simp add: track_games_def totals_def Let_def split: option.splits)

lemma push_match_totals: "totals (push_match m st) = totals st"
  by (simp add: push_match_def totals_def)

lemma games_differential_totals: "totals (games_differential m acc st) = totals st"
  by (simp add: games_differential_def totals_def)

lemma deciding_sets_totals: "totals (deciding_sets m acc st) = totals st"
  by (simp add: deciding_sets_def totals_def)

lemma analyze_set_totals: "totals (snd (analyze_set s p)) = totals (snd p)"
  by (cases p)
    (simp add: analyze_set_def super_won_def super_lost_def tiebreak_set_def regular_set_def
      totals_def Let_def split: option.splits prod.splits)

lemma analyze_fold_totals:
  "totals (snd (foldl (\<lambda>p s. analyze_set s p) p ss)) = totals (snd p)"
  by (induction ss arbitrary: p) (simp_all add: analyze_set_totals)

lemma analyze_sets_totals: "totals (snd (analyze_sets ss st)) = totals st"
  using analyze_fold_totals [of "(initial_acc, st)" ss] by (simp add: analyze_sets_def)

lemma analyze_sets_effect: "fst (analyze_sets ss st) = sets_effect ss"
  by (simp add: analyze_sets_def analyze_fold_effect sets_effect_def)

lemma sets_effect_Nil: "sets_effect [] = initial_acc"
  by (simp add: sets_effect_def)

lemma set_analysis_totals:
  "totals (set_analysis type m st) =
     (setsRecordWon st + setsWon (sets_effect (msets m)),
      setsRecordLost st + setsLost (sets_effect (msets m)),
      gamesRecordWon st + matchGamesWon (sets_effect (msets m)),
      gamesRecordLost st + matchGamesLost (sets_effect (msets m)))"
proof (cases "msets m = []")
  case True
  then show ?thesis
    by (simp add: set_analysis_def totals_def sets_effect_Nil initial_acc_def)
next
  case False
  obtain acc st1 where p: "analyze_sets (msets m) st = (acc, st1)"
    by (cases "analyze_sets (msets m) st")
  have acc: "acc = sets_effect (msets m)"
    using analyze_sets_effect [of "msets m" st] p by simp
  have st1: "totals st1 = totals st"
    using analyze_sets_totals [of "msets m" st] p by simp
  let ?st2 = "st1\<lparr>setsRecordWon := setsRecordWon st1 + setsWon acc,
                   setsRecordLost := setsRecordLost st1 + setsLost acc,
                   gamesRecordWon := gamesRecordWon st1 + matchGamesWon acc,
                   gamesRecordLost := gamesRecordLost st1 + matchGamesLost acc\<rparr>"
  have "set_analysis type m st
      = deciding_sets m acc (track_games type m acc (games_differential m acc ?st2))"
    using False p by (simp add: set_analysis_def Let_def)
  then have "totals (set_analysis type m st) = totals ?st2"
    by (simp only: deciding_sets_totals track_games_totals games_differential_totals)
  also have "\<dots> = (setsRecordWon st + setsWon acc, setsRecordLost st + setsLost acc,
      gamesRecordWon st + matchGamesWon acc, gamesRecordLost st + matchGamesLost acc)"
    using st1 by (simp add: totals_def)
  finally show ?thesis by (simp only: acc)
qed

lemma played_step_totals:
  "totals (played_step type m st) =
     (setsRecordWon st + setsWon (sets_effect (msets m)),
      setsRecordLost st + setsLost (sets_effect (msets m)),
      gamesRecordWon st + matchGamesWon (sets_effect (msets m)),
      gamesRecordLost st + matchGamesLost (sets_effect (msets m)))"
proof -
  let ?s = "track_opponents type m (update_rated m (update_record m st))"
  have s: "totals ?s = totals st"
    by (simp only: track_opponents_totals update_rated_totals update_record_totals)
  then have sel: "setsRecordWon ?s = setsRecordWon st" "setsRecordLost ?s = setsRecordLost st"
    "gamesRecordWon ?s = gamesRecordWon st" "gamesRecordLost ?s = gamesRecordLost st"
    by (simp_all add: totals_def)
  have "totals (played_step type m st) = totals (set_analysis type m ?s)"
    by (simp only: played_step_def push_match_totals)
  then show ?thesis by (simp only: set_analysis_totals sel)
qed

lemma sets_effect_games:
  "matchGamesWon (foldl add_effect acc es) = matchGamesWon acc + sum_list (map matchGamesWon es)"
  "matchGamesLost (foldl add_effect acc es) = matchGamesLost acc + sum_list (map matchGamesLost es)"
  "setsWon (foldl add_effect acc es) = setsWon acc + sum_list (map setsWon es)"
  "setsLost (foldl add_effect acc es) = setsLost acc + sum_list (map setsLost es)"
  by (induction es arbitrary: acc) (simp_all add: add_effect_def)

proposition match_totals_by_set:
  assumes "\<not> isWalkover m"
  shows "gamesRecordWon (process_match type st m)
           = gamesRecordWon st + sum_list (map (\<lambda>s. matchGamesWon (set_effect s)) (msets m))"
    and "gamesRecordLost (process_match type st m)
           = gamesRecordLost st + sum_list (map (\<lambda>s. matchGamesLost (set_effect s)) (msets m))"
    and "setsRecordWon (process_match type st m)
           = setsRecordWon st + sum_list (map (\<lambda>s. setsWon (set_effect s)) (msets m))"
    and "setsRecordLost (process_match type st m)
           = setsRecordLost st + sum_list (map (\<lambda>s. setsLost (set_effect s)) (msets m))"
  using played_step_totals [of type m st] process_match_played [OF assms, of type st]
  by (simp_all add: totals_def sets_effect_def sets_effect_games initial_acc_def comp_def)


subsection \<open>Deciding sets in terms of set outcomes\<close>

lemma played_step_deciding:
  assumes "msets m \<noteq> []"
  shows "decidingSetsWon (played_step type m st)
           = decidingSetsWon st
             + (if wentToDecider (sets_effect (msets m)) \<and> won m = Some True then 1 else 0)"
    and "decidingSetsLost (played_step type m st)
           = decidingSetsLost st
             + (if wentToDecider (sets_effect (msets m)) \<and> won m = Some False then 1 else 0)"
proof -
  let ?s = "track_opponents type m (update_rated m (update_record m st))"
  let ?acc = "fst (analyze_sets (msets m) ?s)"
  have "counters ?s = counters st"
    by (simp only: track_opponents_counters update_rated_counters update_record_counters)
  then have s: "decidingSetsWon ?s = decidingSetsWon st" "decidingSetsLost ?s = decidingSetsLost st"
    by (simp_all add: counters_def)
  have "counters (played_step type m st) = counters (set_analysis type m ?s)"
    by (simp only: played_step_def push_match_counters)
  then have p: "decidingSetsWon (played_step type m st) = decidingSetsWon (set_analysis type m ?s)"
    "decidingSetsLost (played_step type m st) = decidingSetsLost (set_analysis type m ?s)"
    by (simp_all add: counters_def)
  note c = counters_sel [OF set_analysis_counters [OF assms, of type ?s, unfolded Let_def]]
  have d: "decider_of m ?acc =
      (if wentToDecider (sets_effect (msets m)) \<and> won m = Some True then (1, 0)
       else if wentToDecider (sets_effect (msets m)) \<and> won m = Some False then (0, 1)
       else (0, 0))"
    by (simp only: decider_of_def analyze_sets_effect)
  show "decidingSetsWon (played_step type m st)
           = decidingSetsWon st
             + (if wentToDecider (sets_effect (msets m)) \<and> won m = Some True then 1 else 0)"
    using c p s d by simp
  show "decidingSetsLost (played_step type m st)
           = decidingSetsLost st
             + (if wentToDecider (sets_effect (msets m)) \<and> won m = Some False then 1 else 0)"
    using c p s d by simp
qed

lemma tiebreak_unscored_effect:
  "set_effect ''7-6'' = effect 1 0 7 6 False"
  "set_effect ''6-7'' = effect 0 1 6 7 False"
  by code_simp+

lemma outcome_effect:
  assumes "valid_outcome out"
  shows "setsWon (set_effect (render out)) = (if won_by_me out then 1 else 0)"
    and "setsLost (set_effect (render out)) = (if won_by_opponent out then 1 else 0)"
    and "hasSuperTiebreak (set_effect (render out)) = is_super_tiebreak out"
proof -
  have "setsWon (set_effect (render out)) = (if won_by_me out then 1 else 0) \<and>
        setsLost (set_effect (render out)) = (if won_by_opponent out then 1 else 0) \<and>
        hasSuperTiebreak (set_effect (render out)) = is_super_tiebreak out"
  proof (cases out)
    case (Regular a b)
    then have "a \<le> 7" "b \<le> 7" "\<not> (a \<le> 1 \<and> b \<le> 1)" "a \<noteq> b"
      using assms by auto
    then show ?thesis
      using regular_effect [of a b] by (auto simp: Regular effect_def)
  next
    case (Tiebreak mine sc)
    show ?thesis
    proof (cases sc)
      case None
      then show ?thesis by (simp add: Tiebreak tiebreak_unscored_effect effect_def)
    next
      case (Some p)
      obtain x y where "p = (x, y)" by (cases p)
      then show ?thesis
        using tiebreak_scored_effect [of x y] by (simp add: Tiebreak Some effect_def)
    qed
  next
    case (SuperTiebreak mine sc)
    show ?thesis
    proof (cases sc)
      case None
      then show ?thesis by (simp add: SuperTiebreak super_unscored_effect effect_def)
    next
      case (Some p)
      obtain x y where "p = (x, y)" by (cases p)
      then show ?thesis
        using super_scored_effect [of x y] by (simp add: SuperTiebreak Some effect_def)
    qed
  next
    case (SuperTiebreakScore x y)
    then have "x \<ge> 10 \<or> y \<ge> 10" "x \<noteq> y" using assms by auto
    then show ?thesis
      using big_score_effect [of x y] by (auto simp: SuperTiebreakScore effect_def)
  qed
  then show "setsWon (set_effect (render out)) = (if won_by_me out then 1 else 0)"
    and "setsLost (set_effect (render out)) = (if won_by_opponent out then 1 else 0)"
    and "hasSuperTiebreak (set_effect (render out)) = is_super_tiebreak out"
    by simp_all
qed

lemma outcomes_decider:
  assumes "list_all valid_outcome os"
  shows "wentToDecider (sets_effect (map render os)) \<longleftrightarrow> decider_by_all_sets os"
proof -
  have v: "valid_outcome out" if "out \<in> set os" for out
    using assms that by (simp add: list_all_iff)
  have w: "list_ex (\<lambda>e. setsWon e \<ge> 1) (map set_effect (map render os)) \<longleftrightarrow> list_ex won_by_me os"
    using v by (auto simp: list_ex_iff outcome_effect(1))
  have l: "list_ex (\<lambda>e. setsLost e \<ge> 1) (map set_effect (map render os))
           \<longleftrightarrow> list_ex won_by_opponent os"
    using v by (auto simp: list_ex_iff outcome_effect(2))
  have s: "list_ex hasSuperTiebreak (map set_effect (map render os)) \<longleftrightarrow> list_ex is_super_tiebreak os"
    using v by (auto simp: list_ex_iff outcome_effect(3))
  have "wentToDecider (sets_effect (map render os)) \<longleftrightarrow>
      (list_ex (\<lambda>e. setsWon e \<ge> 1) (map set_effect (map render os))
       \<and> list_ex (\<lambda>e. setsLost e \<ge> 1) (map set_effect (map render os)))
      \<or> list_ex hasSuperTiebreak (map set_effect (map render os))"
    using fold_effect_sets [of initial_acc "map set_effect (map render os)"]
    by (simp add: wentToDecider_def sets_effect_def initial_acc_def)
  then show ?thesis by (simp only: w l s decider_by_all_sets_def)
qed


subsection \<open>The table of months in terms of the match list\<close>

lemma update_record_matches: "matches (update_record m st) = matches st"
  by (simp add: update_record_def Let_def)

lemma update_rated_matches: "matches (update_rated m st) = matches st"
  by (simp add: update_rated_def Let_def)

lemma track_opponents_matches: "matches (track_opponents type m st) = matches st"
  by (simp add: track_opponents_def Let_def)

lemma track_games_matches: "matches (track_games type m acc st) = matches st"
  by (simp add: track_games_def Let_def split: option.splits)

lemma analyze_set_matches: "matches (snd (analyze_set s p)) = matches (snd p)"
  by (cases p)
    (simp add: analyze_set_def super_won_def super_lost_def tiebreak_set_def regular_set_def
      Let_def split: option.splits prod.splits)

lemma analyze_fold_matches:
  "matches (snd (foldl (\<lambda>p s. analyze_set s p) p ss)) = matches (snd p)"
  by (induction ss arbitrary: p) (simp_all add: analyze_set_matches)

lemma analyze_sets_matches: "matches (snd (analyze_sets ss st)) = matches st"
  using analyze_fold_matches [of "(initial_acc, st)" ss] by (simp add: analyze_sets_def)

lemma games_differential_matches: "matches (games_differential m acc st) = matches st"
  by (simp add: games_differential_def)

lemma deciding_sets_matches: "matches (deciding_sets m acc st) = matches st"
  by (simp add: deciding_sets_def)

lemma set_analysis_matches: "matches (set_analysis type m st) = matches st"
proof (cases "msets m = []")
  case True
  then show ?thesis by (simp add: set_analysis_no_sets)
next
  case False
  obtain acc st1 where p: "analyze_sets (msets m) st = (acc, st1)"
    by (cases "analyze_sets (msets m) st")
  let ?st2 = "st1\<lparr>setsRecordWon := setsRecordWon st1 + setsWon acc,
                   setsRecordLost := setsRecordLost st1 + setsLost acc,
                   gamesRecordWon := gamesRecordWon st1 + matchGamesWon acc,
                   gamesRecordLost := gamesRecordLost st1 + matchGamesLost acc\<rparr>"
  have m1: "matches st1 = matches st"
    using analyze_sets_matches [of "msets m" st] p by simp
  have m2: "matches ?st2 = matches st" using m1 by simp
  have "set_analysis type m st
          = deciding_sets m acc (track_games type m acc (games_differential m acc ?st2))"
    using False p by (simp add: set_analysis_def Let_def)
  then show ?thesis
    by (simp only: deciding_sets_matches track_games_matches games_differential_matches m2)
qed

lemma played_step_matches: "matches (played_step type m st) = matches st @ [played_entry m]"
  by (simp add: played_step_def push_match_def played_entry_def set_analysis_matches
      track_opponents_matches update_rated_matches update_record_matches)

lemma process_match_matches:
  "matches (process_match type st m) = matches st @ (if isWalkover m then [] else [played_entry m])"
proof (cases "isWalkover m")
  case True
  then show ?thesis by (simp add: process_match_def)
next
  case False
  then show ?thesis by (simp add: process_match_played played_step_matches)
qed

lemma fold_matches_matches:
  "matches (fold_matches type st ms) = matches st @ map played_entry (played ms)"
proof (induction ms arbitrary: st)
  case Nil
  then show ?case by (simp add: fold_matches_def played_def)
next
  case (Cons m ms)
  have "fold_matches type st (m # ms) = fold_matches type (process_match type st m) ms"
    by (simp add: fold_matches_def)
  then show ?case
    using Cons.IH [of "process_match type st m"] by (simp add: process_match_matches played_def)
qed

lemma monthly_fold_dated:
  "foldl monthly_step es (map played_entry xs)
     = foldl (\<lambda>es m. bump_month (month_of m) (won m) es) es (filter dated xs)"
  by (induction xs arbitrary: es)
    (simp_all add: monthly_step_def played_entry_def dated_def month_of_def)

lemma bump_month_keys:
  assumes "distinct ks"
  shows "bump_month k w (map (\<lambda>j. \<lparr>month = j, m_wins = cw j, m_losses = cl j\<rparr>) ks) =
     map (\<lambda>j. \<lparr>month = j, m_wins = cw j + (if j = k \<and> w = Some True then 1 else 0),
               m_losses = cl j + (if j = k \<and> w = Some False then 1 else 0)\<rparr>) ks
     @ (if k \<in> set ks then []
        else [\<lparr>month = k, m_wins = (if w = Some True then 1 else 0),
               m_losses = (if w = Some False then 1 else 0)\<rparr>])"
  using assms
proof (induction ks)
  case Nil
  show ?case by simp
next
  case (Cons a ks)
  show ?case
  proof (cases "a = k")
    case True
    then have "k \<notin> set ks" using Cons.prems by simp
    then have "map (\<lambda>j. \<lparr>month = j, m_wins = cw j + (if j = k \<and> w = Some True then 1 else 0),
                 m_losses = cl j + (if j = k \<and> w = Some False then 1 else 0)\<rparr>) ks
             = map (\<lambda>j. \<lparr>month = j, m_wins = cw j, m_losses = cl j\<rparr>) ks"
      by (intro map_cong) auto
    then show ?thesis using True by simp
  next
    case False
    then show ?thesis using Cons by simp
  qed
qed

lemma first_occurrences_snoc:
  "first_occurrences (xs @ [k])
     = (if k \<in> set xs then first_occurrences xs else first_occurrences xs @ [k])"
  by (simp add: first_occurrences_def)

lemma first_occurrences_set: "set (first_occurrences xs) = set xs"
  by (simp add: first_occurrences_def)

lemma first_occurrences_distinct: "distinct (first_occurrences xs)"
  by (simp add: first_occurrences_def)

lemma monthly_fold_entries:
  "foldl (\<lambda>es m. bump_month (month_of m) (won m) es) [] ds
     = map (month_entry_of ds) (months_in_order ds)"
proof (induction ds rule: rev_induct)
  case Nil
  show ?case by (simp add: months_in_order_def first_occurrences_def)
next
  case (snoc m ds)
  let ?k = "month_of m"
  let ?w = "won m"
  let ?ks = "months_in_order ds"
  have d: "distinct ?ks" by (simp add: months_in_order_def first_occurrences_distinct)
  have s: "set ?ks = month_of ` set ds" by (simp add: months_in_order_def first_occurrences_set)
  have o: "months_in_order (ds @ [m]) = (if ?k \<in> set ?ks then ?ks else ?ks @ [?k])"
    by (simp add: months_in_order_def first_occurrences_snoc first_occurrences_set)
  have c: "month_entry_of (ds @ [m]) j
      = \<lparr>month = j, m_wins = month_wins ds j + (if j = ?k \<and> ?w = Some True then 1 else 0),
          m_losses = month_losses ds j + (if j = ?k \<and> ?w = Some False then 1 else 0)\<rparr>" for j
    by (auto simp: month_entry_of_def month_wins_def month_losses_def)
  have z: "month_wins ds ?k = 0 \<and> month_losses ds ?k = 0" if "?k \<notin> set ?ks"
    using that by (auto simp: s image_iff month_wins_def month_losses_def filter_empty_conv)
  have b: "bump_month ?k ?w (map (month_entry_of ds) ?ks) =
     map (month_entry_of (ds @ [m])) ?ks
     @ (if ?k \<in> set ?ks then []
        else [\<lparr>month = ?k, m_wins = (if ?w = Some True then 1 else 0),
               m_losses = (if ?w = Some False then 1 else 0)\<rparr>])"
  proof -
    have e1: "map (month_entry_of ds) ?ks
        = map (\<lambda>j. \<lparr>month = j, m_wins = month_wins ds j, m_losses = month_losses ds j\<rparr>) ?ks"
      by (simp add: month_entry_of_def)
    have e2: "map (month_entry_of (ds @ [m])) ?ks
        = map (\<lambda>j. \<lparr>month = j,
                     m_wins = month_wins ds j + (if j = ?k \<and> ?w = Some True then 1 else 0),
                     m_losses = month_losses ds j + (if j = ?k \<and> ?w = Some False then 1 else 0)\<rparr>) ?ks"
      by (simp add: c)
    show ?thesis
      by (simp only: e1 e2) (rule bump_month_keys [OF d])
  qed
  have n: "month_entry_of (ds @ [m]) ?k
      = \<lparr>month = ?k, m_wins = (if ?w = Some True then 1 else 0),
          m_losses = (if ?w = Some False then 1 else 0)\<rparr>" if "?k \<notin> set ?ks"
    using z [OF that] by (simp add: c)
  have "foldl (\<lambda>es m. bump_month (month_of m) (won m) es) [] (ds @ [m])
          = bump_month ?k ?w (map (month_entry_of ds) ?ks)"
    by (simp add: snoc.IH)
  also have "\<dots> = map (month_entry_of (ds @ [m])) (months_in_order (ds @ [m]))"
  proof (cases "?k \<in> set ?ks")
    case True
    then show ?thesis by (simp only: b o if_True append_Nil2)
  next
    case False
    then show ?thesis using n [OF False] by (simp only: b o if_False) simp
  qed
  finally show ?case .
qed

lemma monthlyStats_entries:
  "monthlyStats (map played_entry xs)
     = map (month_entry_of (filter dated xs)) (months_in_order (filter dated xs))"
  by (simp only: monthlyStats_def monthly_fold_dated monthly_fold_entries)

lemma object_values_no_index:
  assumes "list_all (\<lambda>e. \<not> is_array_index (month e)) es"
  shows "object_values es = es"
proof -
  have "filter (\<lambda>e. is_array_index (month e)) es = []"
    using assms by (simp add: list_all_iff filter_empty_conv)
  moreover have "filter (\<lambda>e. \<not> is_array_index (month e)) es = es"
    using assms by (simp add: list_all_iff)
  ultimately show ?thesis by (simp add: object_values_def)
qed

lemma filter_map_agree:
  assumes "\<And>x. x \<in> set xs \<Longrightarrow> P (f x) \<or> P (g x) \<Longrightarrow> f x = g x"
  shows "filter P (map f xs) = filter P (map g xs)"
  using assms
proof (induction xs)
  case Nil
  show ?case by simp
next
  case (Cons x xs)
  have t: "filter P (map f xs) = filter P (map g xs)"
    using Cons by simp
  have h: "P (f x) \<or> P (g x) \<Longrightarrow> f x = g x"
    using Cons.prems [of x] by simp
  show ?case
  proof (cases "P (f x) \<or> P (g x)")
    case True
    then show ?thesis using h t by auto
  next
    case False
    then show ?thesis using t by simp
  qed
qed

lemma monthlyData_table:
  assumes "list_all (\<lambda>m. \<not> is_array_index (month_of m)) (filter dated (played ms))"
  shows "monthlyData pct (matches (fold_matches type initial_stats ms)) = month_table pct ms"
proof -
  let ?ds = "filter dated (played ms)"
  let ?es = "map (month_entry_of ?ds) (months_in_order ?ds)"
  have m: "matches (fold_matches type initial_stats ms) = map played_entry (played ms)"
    by (simp add: fold_matches_matches initial_stats_def)
  have k: "set (months_in_order ?ds) = month_of ` set ?ds"
    by (simp add: months_in_order_def first_occurrences_set)
  have "list_all (\<lambda>e. \<not> is_array_index (month e)) ?es"
    using assms k by (auto simp: list_all_iff month_entry_of_def)
  then have v: "object_values ?es = ?es" by (rule object_values_no_index)
  have "filter (\<lambda>r. total r > 0) (map (\<lambda>k. month_row_of pct (month_entry_of ?ds k)) (months_in_order ?ds))
        = filter (\<lambda>r. total r > 0) (map (month_summary pct ?ds) (months_in_order ?ds))"
    by (rule filter_map_agree) (auto simp: month_row_of_def month_entry_of_def month_summary_def)
  then show ?thesis
    by (simp add: monthlyData_def m monthlyStats_entries v month_table_def Let_def comp_def)
qed

lemma monthNames_no_index: "list_all (\<lambda>k. \<not> is_array_index k) (''undefined'' # monthNames)"
  by code_simp

lemma iso_month_no_index:
  assumes "is_iso_date d"
  shows "\<not> is_array_index (monthKey d)"
proof -
  have l: "length monthNames = 12" by (simp add: monthNames_def)
  have "monthKey d \<in> set (''undefined'' # monthNames)"
  proof (cases "parseInt (take 2 (drop 5 d))")
    case None
    then show ?thesis using assms by (simp add: monthKey_def)
  next
    case (Some n)
    have mk: "monthKey d = (if 1 \<le> n \<and> n \<le> 12 then monthNames ! nat (n - 1) else ''undefined'')"
      using assms Some by (simp add: monthKey_def)
    show ?thesis
    proof (cases "1 \<le> n \<and> n \<le> 12")
      case True
      then have "nat (n - 1) < length monthNames" unfolding l by arith
      then have "monthNames ! nat (n - 1) \<in> set monthNames" by (rule nth_mem)
      moreover have "monthKey d = monthNames ! nat (n - 1)"
        using True by (simp add: mk)
      ultimately show ?thesis by simp
    next
      case False
      have "monthKey d = ''undefined''"
        using False by (simp only: mk simp_thms if_False)
      then show ?thesis by simp
    qed
  qed
  then show ?thesis
    using monthNames_no_index by (simp only: list_all_iff) blast
qed


subsection \<open>Claims about the aggregator\<close>

text \<open>
  Claim C9: the counters \<open>wonWithFewer\<close> and \<open>lostWithMore\<close> computed over a prefix \<open>P\<close> of a
  list of matches are at most those computed over the whole list \<open>P @ R\<close>, and folding the
  prefix and then the remaining matches from the state reached is folding the whole list.
\<close>

theorem games_differential_monotone:
  "wonWithFewer (folded (generateStats pct type P))
     \<le> wonWithFewer (folded (generateStats pct type (P @ R))) \<and>
   lostWithMore (folded (generateStats pct type P))
     \<le> lostWithMore (folded (generateStats pct type (P @ R))) \<and>
   fold_matches type (fold_matches type initial_stats P) R = fold_matches type initial_stats (P @ R)"
  using fold_matches_mono [of "fold_matches type initial_stats P" type R]
  by (simp add: generateStats_def Let_def fold_matches_append)

text \<open>
  Claim C6 at a match whose second set stood at 1-1 (the decoder emits the regular set
  "1-1" for the digit pair (1,1)): the pattern of line 727 takes "1-1" for a super tiebreak
  without score, so the match adds the games 6 and 4 of the first set only and one super
  tiebreak won, where the claim has the regular set 1-1 add one game to each side. For the
  other sets the decoder writes, the facts \<open>regular_effect\<close>, \<open>tiebreak_scored_effect\<close>,
  \<open>super_scored_effect\<close>, \<open>super_unscored_effect\<close>, \<open>big_score_effect\<close> and
  \<open>match_totals_by_set\<close> above give the contributions the claim states.
\<close>

theorem tied_one_all_counted_as_super_tiebreak:
  "dsets (parseScores ''61'' ''41'') = [''6-4'', ''1-1''] \<and>
   (let s = folded (generateStats exact_pct Singles
                [example_match ''2025-01-03'' ''Bob Ray'' (Some True) [''6-4'', ''1-1'']])
    in gamesRecordWon s = 6 \<and> gamesRecordLost s = 4 \<and>
       superTiebreaksWon s = 1 \<and> setsRecordWon s = 2 \<and> setsRecordLost s = 0)"
  by code_simp

text \<open>
  Claim C7, as stated, at a match that stands at one set all after two sets, 6-4 4-6, and
  is recorded as lost: no side had a set before the final set and the final set is not a
  super tiebreak, yet the match is counted as a deciding-set loss.
\<close>

theorem deciding_set_counterexample:
  "\<not> isWalkover split_sets_example \<and>
   msets split_sets_example = map render [Regular 6 4, Regular 4 6] \<and>
   list_all valid_outcome [Regular 6 4, Regular 4 6] \<and>
   \<not> decider_before_final_set [Regular 6 4, Regular 4 6] \<and>
   decidingSetsLost (folded (generateStats exact_pct Singles [split_sets_example])) = 1"
  by code_simp

text \<open>
  Claim C7, amended: for every match that is not a walkover and has a non-empty list of
  sets that each have a winner (regular sets with different games on the two sides, the
  indicator pairs 1-0 and 0-1 apart; tiebreak sets; super tiebreaks), the aggregator
  counts the match in the deciding-set record exactly when both sides won at least one set
  among all the sets of the match (the final set included), or some set of the match is a
  super tiebreak; the match then counts as a deciding-set win if \<open>won\<close> is true and as a
  deciding-set loss if \<open>won\<close> is false. Nothing is said of a match with a set that has no
  winner, such as 1-1 or 6-6.
\<close>

theorem deciding_set_record:
  assumes "\<not> isWalkover m" and "os \<noteq> []" and "list_all valid_outcome os"
    and "msets m = map render os"
  shows "decidingSetsWon (process_match type st m)
           = decidingSetsWon st + (if decider_by_all_sets os \<and> won m = Some True then 1 else 0) \<and>
         decidingSetsLost (process_match type st m)
           = decidingSetsLost st + (if decider_by_all_sets os \<and> won m = Some False then 1 else 0)"
proof -
  have ne: "msets m \<noteq> []" using assms(2,4) by simp
  have d: "wentToDecider (sets_effect (msets m)) \<longleftrightarrow> decider_by_all_sets os"
    using outcomes_decider [OF assms(3)] by (simp only: assms(4))
  show ?thesis
    using played_step_deciding [OF ne, of type st] process_match_played [OF assms(1), of type st]
    by (simp only: d)
qed

text \<open>Claim C7, amended, at the match 6-4 4-6 recorded as lost.\<close>

theorem deciding_set_record_witness:
  "\<not> isWalkover split_sets_example \<and> [Regular 6 4, Regular 4 6] \<noteq> [] \<and>
   list_all valid_outcome [Regular 6 4, Regular 4 6] \<and>
   msets split_sets_example = map render [Regular 6 4, Regular 4 6] \<and>
   decidingSetsWon (process_match Singles initial_stats split_sets_example)
     = decidingSetsWon initial_stats
       + (if decider_by_all_sets [Regular 6 4, Regular 4 6] \<and> won split_sets_example = Some True
          then 1 else 0) \<and>
   decidingSetsLost (process_match Singles initial_stats split_sets_example)
     = decidingSetsLost initial_stats
       + (if decider_by_all_sets [Regular 6 4, Regular 4 6] \<and> won split_sets_example = Some False
          then 1 else 0)"
proof -
  have a1: "\<not> isWalkover split_sets_example" by code_simp
  have a2: "[Regular 6 4, Regular 4 6] \<noteq> []" by simp
  have a3: "list_all valid_outcome [Regular 6 4, Regular 4 6]" by code_simp
  have a4: "msets split_sets_example = map render [Regular 6 4, Regular 4 6]" by code_simp
  show ?thesis
    using a1 a2 a3 a4 deciding_set_record [OF a1 a2 a3 a4, of Singles initial_stats] by blast
qed


text \<open>
  Claim C8, as stated, at a season with one win in January followed by two wins in
  February: both months have a win percentage of 100, February has more matches played,
  and the best month is January.
\<close>

theorem best_month_tie_counterexample:
  "ss_bestMonth (generateStats exact_pct Singles tied_months_example) = Some jan_row \<and>
   feb_row \<in> set (ss_monthlyBreakdown (generateStats exact_pct Singles tied_months_example)) \<and>
   spec_better_month feb_row jan_row"
  by code_simp

lemma best_worst_of_monthlyData:
  "ss_bestMonth (generateStats pct type ms) =
     (let rows = monthlyData pct (matches (fold_matches type initial_stats ms)) in
      if rows = [] then None
      else Some (hd (filter (\<lambda>r. winPct r = Max (set (map winPct rows))) rows))) \<and>
   ss_worstMonth (generateStats pct type ms) =
     (let rows = monthlyData pct (matches (fold_matches type initial_stats ms)) in
      if rows = [] then None
      else Some (last (filter (\<lambda>r. winPct r = Min (set (map winPct rows))) rows)))"
proof -
  let ?rows = "monthlyData pct (matches (fold_matches type initial_stats ms))"
  let ?sorted = "sort_key (\<lambda>r. - winPct r) ?rows"
  show ?thesis
  proof (cases "?rows = []")
    case True
    then show ?thesis
      by (simp add: generateStats_def Let_def bestMonth_def worstMonth_def monthlyBreakdown_def)
  next
    case False
    then have ne: "?sorted \<noteq> []" by (rule sort_key_nonempty)
    then obtain r rs where rs: "?sorted = r # rs" by (cases ?sorted) auto
    have b: "hd ?sorted = hd (filter (\<lambda>r. winPct r = Max (set (map winPct ?rows))) ?rows)"
      using False by (rule first_row_best)
    have w: "last ?sorted = last (filter (\<lambda>r. winPct r = Min (set (map winPct ?rows))) ?rows)"
      using False by (rule last_row_worst)
    have "bestMonth pct (matches (fold_matches type initial_stats ms)) = Some (hd ?sorted)"
      by (simp add: bestMonth_def monthlyBreakdown_def rs)
    moreover have "worstMonth pct (matches (fold_matches type initial_stats ms)) = Some (last ?sorted)"
      by (simp add: worstMonth_def monthlyBreakdown_def rs)
    ultimately show ?thesis
      using False b w by (simp add: generateStats_def Let_def)
  qed
qed

text \<open>
  Claim C8, amended: best month and worst month are selected by win percentage alone over
  the table of months, which lists the months of the matches that are not walkovers and
  have a date in the order in which they first occur in the match list, each month with at
  least one decided match. When several months have the same win percentage, this order
  decides and the number of matches played does not: the best month is the first of the
  months with the highest percentage, the worst month is the last of the months with the
  lowest percentage. Without any month with a decided match both are \<open>null\<close>. This holds
  whenever no month label is the decimal form of an array index, as is the case for
  every ISO date.
\<close>

theorem best_and_worst_month:
  assumes "list_all (\<lambda>m. \<not> is_array_index (month_of m)) (filter dated (played ms))"
  shows "ss_bestMonth (generateStats pct type ms) =
     (let rows = month_table pct ms in
      if rows = [] then None
      else Some (hd (filter (\<lambda>r. winPct r = Max (set (map winPct rows))) rows))) \<and>
   ss_worstMonth (generateStats pct type ms) =
     (let rows = month_table pct ms in
      if rows = [] then None
      else Some (last (filter (\<lambda>r. winPct r = Min (set (map winPct rows))) rows)))"
  using best_worst_of_monthlyData [of pct type ms]
  by (simp only: monthlyData_table [OF assms])

text \<open>
  Claim C8, amended, at the season with one win in January followed by two wins in
  February: the table of months is January, February, and both the best and the worst
  month are read from it.
\<close>

theorem best_and_worst_month_witness:
  "list_all (\<lambda>m. \<not> is_array_index (month_of m)) (filter dated (played tied_months_example)) \<and>
   month_table exact_pct tied_months_example = [jan_row, feb_row] \<and>
   ss_bestMonth (generateStats exact_pct Singles tied_months_example) =
     (let rows = month_table exact_pct tied_months_example in
      if rows = [] then None
      else Some (hd (filter (\<lambda>r. winPct r = Max (set (map winPct rows))) rows))) \<and>
   ss_worstMonth (generateStats exact_pct Singles tied_months_example) =
     (let rows = month_table exact_pct tied_months_example in
      if rows = [] then None
      else Some (last (filter (\<lambda>r. winPct r = Min (set (map winPct rows))) rows)))"
proof -
  have h: "list_all (\<lambda>m. \<not> is_array_index (month_of m)) (filter dated (played tied_months_example))"
    by code_simp
  have t: "month_table exact_pct tied_months_example = [jan_row, feb_row]"
    by code_simp
  show ?thesis
    using h t best_and_worst_month [OF h, of exact_pct Singles] by blast
qed


text \<open>
  Claim C10: a walkover in the list of matches changes nothing in the season statistics but
  the walkover counter, which is one higher: the record, the streaks, the tables of
  opponents, teams and partners, the set, game, tiebreak and bagel counters, the
  games-differential counters, the monthly breakdown with its best and worst month and the
  comeback and choke counts are those of the list without that match.
\<close>

theorem walkover_changes_only_walkovers:
  assumes "isWalkover w"
  shows "generateStats pct type (xs @ w # ys) =
         (let r = generateStats pct type (xs @ ys)
          in r\<lparr>folded := (folded r)\<lparr>walkovers := walkovers (folded r) + 1\<rparr>\<rparr>)"
  using fold_matches_walkover [OF assms, of type initial_stats xs ys]
  by (simp add: generateStats_def Let_def with_walkovers_def)

text \<open>Claim C10 at a season of one walkover.\<close>

theorem walkover_changes_only_walkovers_witness:
  "isWalkover walkover_example \<and>
   generateStats exact_pct Singles ([] @ walkover_example # []) =
         (let r = generateStats exact_pct Singles ([] @ [])
          in r\<lparr>folded := (folded r)\<lparr>walkovers := walkovers (folded r) + 1\<rparr>\<rparr>)"
proof -
  have w: "isWalkover walkover_example" by (simp add: walkover_example_def)
  show ?thesis
    using w walkover_changes_only_walkovers [OF w, of exact_pct Singles "[]" "[]"] by simp
qed


subsection \<open>Claim about walkovers\<close>





end
